theory Spec2Isabelle
  imports
    Main
    "HOL-Library.FSet"
    "HOL-Library.AList"
    "HOL-Library.Multiset"
    "HOL-Library.Char_ord"
    "HOL-Library.List_Lexorder"
    "HOL-Library.Product_Lexorder"
begin

section \<open>Cowrie log analyzer (Activity-02/analyze\_log.py)\<close>

text \<open>
  The input file is modelled by the list of lines the loop \<^verbatim>\<open>for line in fp\<close>
  iterates over (each line keeps its trailing newline, when it has one). A line
  is a \<^typ>\<open>string\<close>, one \<^typ>\<open>char\<close> per character, so the model covers
  lines whose characters lie in the 8-bit range; there \<^verbatim>\<open>\d\<close> matches
  exactly the ten ASCII digits. What the program prints to standard output is
  modelled by the list of printed lines.
\<close>

subsection \<open>The regular expressions of the module \<^verbatim>\<open>re\<close> that the program uses\<close>

text \<open>
  A match object is represented by the association list of its named groups.
  The matcher is a backtracking matcher: for a pattern and an input it returns
  every way to match a prefix of the input, in the order in which the
  backtracking engine tries them (greedy repetitions longest first, lazy ones
  shortest first). The head of that list is the match that Python reports.
\<close>

type_synonym groups = "(string \<times> string) list"

datatype regex =
    Lit string
  | Rep "char \<Rightarrow> bool" nat "nat option" bool
  | Seq regex regex
  | Opt regex
  | Grp string regex

text \<open>
  \<open>Rep P lo hi greedy\<close> repeats a one-character class between \<open>lo\<close> and \<open>hi\<close>
  times (\<open>None\<close>: unbounded). \<open>rep_counts\<close> lists the repetition counts in the
  order the engine tries them, for an input that starts with \<open>k\<close> characters of
  the class.
\<close>

definition rep_counts :: "nat \<Rightarrow> nat \<Rightarrow> nat option \<Rightarrow> bool \<Rightarrow> nat list" where
  "rep_counts k lo hi greedy =
     (let top = (case hi of None \<Rightarrow> k | Some h \<Rightarrow> min k h);
          up = [lo ..< Suc top]
      in if greedy then rev up else up)"

fun rmatch :: "regex \<Rightarrow> string \<times> groups \<Rightarrow> (string \<times> groups) list" where
  "rmatch (Lit t) (s, g) =
     (if take (length t) s = t then [(drop (length t) s, g)] else [])"
| "rmatch (Rep P lo hi greedy) (s, g) =
     map (\<lambda>n. (drop n s, g)) (rep_counts (length (takeWhile P s)) lo hi greedy)"
| "rmatch (Seq a b) st = concat (map (rmatch b) (rmatch a st))"
| "rmatch (Opt a) st = rmatch a st @ [st]"
| "rmatch (Grp name a) (s, g) =
     map (\<lambda>(s', g'). (s', (name, take (length s - length s') s) # g')) (rmatch a (s, g))"

text \<open>\<^verbatim>\<open>pattern.search(line)\<close>: the first match at the leftmost position that has one.\<close>

fun search :: "regex \<Rightarrow> string \<Rightarrow> groups option" where
  "search r [] = (case rmatch r ([], []) of [] \<Rightarrow> None | (s', g) # _ \<Rightarrow> Some g)"
| "search r (c # cs) =
     (case rmatch r (c # cs, []) of [] \<Rightarrow> search r cs | (s', g) # _ \<Rightarrow> Some g)"

text \<open>
  \<^verbatim>\<open>m.group(name)\<close> of a group that took part in the match. Every group that the
  program reads takes part in every match of its pattern.
\<close>

definition group :: "groups \<Rightarrow> string \<Rightarrow> string" where
  "group m name = (case map_of m name of Some v \<Rightarrow> v | None \<Rightarrow> [])"

text \<open>
  For the proofs: the texts that a pattern can match, the names of its groups, and
  the names of the groups that take part in every match.
\<close>

fun lang :: "regex \<Rightarrow> string set" where
  "lang (Lit t) = {t}"
| "lang (Rep P lo hi greedy) =
     {w. (\<forall>c \<in> set w. P c) \<and> lo \<le> length w \<and> (case hi of None \<Rightarrow> True | Some h \<Rightarrow> length w \<le> h)}"
| "lang (Seq a b) = {u @ v | u v. u \<in> lang a \<and> v \<in> lang b}"
| "lang (Opt a) = insert [] (lang a)"
| "lang (Grp name a) = lang a"

fun group_names :: "regex \<Rightarrow> string set" where
  "group_names (Lit t) = {}"
| "group_names (Rep P lo hi greedy) = {}"
| "group_names (Seq a b) = group_names a \<union> group_names b"
| "group_names (Opt a) = group_names a"
| "group_names (Grp name a) = insert name (group_names a)"

fun sure_groups :: "regex \<Rightarrow> string set" where
  "sure_groups (Lit t) = {}"
| "sure_groups (Rep P lo hi greedy) = {}"
| "sure_groups (Seq a b) = sure_groups a \<union> sure_groups b"
| "sure_groups (Opt a) = {}"
| "sure_groups (Grp name a) = insert name (sure_groups a)"

fun seqs :: "regex list \<Rightarrow> regex" where
  "seqs [] = Lit []"
| "seqs [r] = r"
| "seqs (r # rs) = Seq r (seqs rs)"

text \<open>
  The character classes \<^verbatim>\<open>\d\<close>, \<^verbatim>\<open>[0-9a-f:]\<close> and \<^verbatim>\<open>.\<close> (any character but
  the newline), and the repetitions \<^verbatim>\<open>\d+\<close>, \<^verbatim>\<open>\d{n}\<close> and \<^verbatim>\<open>.*?\<close>.
\<close>

definition isdigit :: "char \<Rightarrow> bool" where
  "isdigit c = (c \<in> set ''0123456789'')"

definition ishexcolon :: "char \<Rightarrow> bool" where
  "ishexcolon c = (c \<in> set ''0123456789abcdef:'')"

definition anychar :: "char \<Rightarrow> bool" where
  "anychar c = (c \<noteq> CHR 0x0A)"

definition digits1 :: regex where
  "digits1 = Rep isdigit 1 None True"

definition digitsN :: "nat \<Rightarrow> regex" where
  "digitsN n = Rep isdigit n (Some n) True"

definition lazy_any :: regex where
  "lazy_any = Rep anychar 0 None False"

text \<open>
  \<^verbatim>\<open>\d+\.\d+\.\d+\.\d+\<close>, and the common beginning
  \<^verbatim>\<open>\[HoneyPotSSHTransport,\d+,(?P<ip>\d+\.\d+\.\d+\.\d+)\].*?\<close> of three patterns.
\<close>

definition ipv4 :: regex where
  "ipv4 = seqs [digits1, Lit ''.'', digits1, Lit ''.'', digits1, Lit ''.'', digits1]"

definition transport_marker :: regex where
  "transport_marker =
     seqs [Lit ''[HoneyPotSSHTransport,'', digits1, Lit '','', Grp ''ip'' ipv4, Lit '']'', lazy_any]"

text \<open>The beginning above, then \<^verbatim>\<open>login attempt \[.*?/.*?\] failed\<close>.\<close>

definition FAILED_LOGIN_PATTERN :: regex where
  "FAILED_LOGIN_PATTERN =
     seqs [transport_marker,
           Lit ''login attempt ['', lazy_any, Lit ''/'', lazy_any, Lit ''] failed'']"

text \<open>
  \<^verbatim>\<open>(?P<ts>\d{4}-\d{2}-\d{2}T\d{2}:\d{2}:\d{2}(?:\.\d+)?)Z \<close>, then
  \<^verbatim>\<open>\[cowrie\.ssh\.factory\.CowrieSSHFactory\] New connection: \<close>, then
  \<^verbatim>\<open>(?P<ip>\d+\.\d+\.\d+\.\d+):\d+\<close>.
\<close>

definition NEW_CONN_PATTERN :: regex where
  "NEW_CONN_PATTERN =
     seqs [Grp ''ts'' (seqs [digitsN 4, Lit ''-'', digitsN 2, Lit ''-'', digitsN 2, Lit ''T'',
                             digitsN 2, Lit '':'', digitsN 2, Lit '':'', digitsN 2,
                             Opt (Seq (Lit ''.'') digits1)]),
           Lit ''Z '',
           Lit ''[cowrie.ssh.factory.CowrieSSHFactory] New connection: '',
           Grp ''ip'' ipv4, Lit '':'', digits1]"

text \<open>
  The beginning above, then
  \<^verbatim>\<open>login attempt \[(?P<user>[^/]+)/(?P<pw>[^\]]+)\] succeeded\<close>.
\<close>

definition SUCCESS_LOGIN_PATTERN :: regex where
  "SUCCESS_LOGIN_PATTERN =
     seqs [transport_marker,
           Lit ''login attempt ['',
           Grp ''user'' (Rep (\<lambda>c. c \<noteq> CHR ''/'') 1 None True), Lit ''/'',
           Grp ''pw'' (Rep (\<lambda>c. c \<noteq> CHR '']'') 1 None True), Lit ''] succeeded'']"

text \<open>
  The beginning above, then \<^verbatim>\<open>SSH client hassh fingerprint: (?P<fp>[0-9a-f:]{32})\<close>.
\<close>

definition FINGERPRINT_PATTERN :: regex where
  "FINGERPRINT_PATTERN =
     seqs [transport_marker,
           Lit ''SSH client hassh fingerprint: '',
           Grp ''fp'' (Rep ishexcolon 32 (Some 32) True)]"

text \<open>\<^verbatim>\<open>CMD: (?P<cmd>.+)\<close>\<close>

definition CMD_PATTERN :: regex where
  "CMD_PATTERN = Seq (Lit ''CMD: '') (Grp ''cmd'' (Rep anychar 1 None True))"


subsection \<open>Strings and format specifications\<close>

definition digit_val :: "char \<Rightarrow> nat" where
  "digit_val c = of_char c - 48"

definition digit_char :: "nat \<Rightarrow> char" where
  "digit_char n = char_of (48 + n)"

text \<open>\<^verbatim>\<open>str(n)\<close> of an integer: its decimal digits, with a sign when negative.\<close>

fun str_nat :: "nat \<Rightarrow> string" where
  "str_nat n = (if n < 10 then [digit_char n] else str_nat (n div 10) @ [digit_char (n mod 10)])"

declare str_nat.simps [simp del]

definition str_int :: "int \<Rightarrow> string" where
  "str_int i = (if i < 0 then CHR ''-'' # str_nat (nat (- i)) else str_nat (nat i))"

text \<open>
  The format specifications \<^verbatim>\<open>{s:<w}\<close> and \<^verbatim>\<open>{s:>w}\<close>: pad with spaces to at
  least \<open>w\<close> characters; a longer text is printed whole.
\<close>

definition fmt_left :: "nat \<Rightarrow> string \<Rightarrow> string" where
  "fmt_left w s = s @ replicate (w - length s) CHR '' ''"

definition fmt_right :: "nat \<Rightarrow> string \<Rightarrow> string" where
  "fmt_right w s = replicate (w - length s) CHR '' '' @ s"

text \<open>\<^verbatim>\<open>str.isspace\<close> on the 8-bit range, and \<^verbatim>\<open>str.strip()\<close>.\<close>

definition isspace :: "char \<Rightarrow> bool" where
  "isspace c = (of_char c \<in> set [9, 10, 11, 12, 13, 28, 29, 30, 31, 32, 133, 160 :: nat])"

definition strip :: "string \<Rightarrow> string" where
  "strip s = rev (dropWhile isspace (rev (dropWhile isspace s)))"

text \<open>\<^verbatim>\<open>max(iterable, default=d)\<close>.\<close>

fun max_default :: "nat list \<Rightarrow> nat \<Rightarrow> nat" where
  "max_default [] d = d"
| "max_default (x # xs) d = fold max xs x"

subsection \<open>Dictionaries, counters and sets\<close>

text \<open>
  A \<^verbatim>\<open>dict\<close> (and so a \<^verbatim>\<open>Counter\<close> and a \<^verbatim>\<open>defaultdict\<close>) iterates over its
  keys in the order of their first insertion, so it is an association list with
  distinct keys. \<^const>\<open>AList.update\<close> is \<^verbatim>\<open>d[k] = v\<close>: an existing key keeps its
  place, a new key goes to the end. A \<^verbatim>\<open>set\<close> of strings is a finite set.
\<close>

type_synonym 'k counter = "('k \<times> int) list"

text \<open>\<^verbatim>\<open>counter[k]\<close>: a missing key reads as 0.\<close>

definition get_count :: "'k counter \<Rightarrow> 'k \<Rightarrow> int" where
  "get_count counter k = (case map_of counter k of None \<Rightarrow> 0 | Some n \<Rightarrow> n)"

text \<open>\<^verbatim>\<open>counter[k] += 1\<close>\<close>

definition incr :: "'k \<Rightarrow> 'k counter \<Rightarrow> 'k counter" where
  "incr k counter = AList.update k (get_count counter k + 1) counter"

text \<open>\<^verbatim>\<open>d[k].add(ip)\<close> on a \<^verbatim>\<open>defaultdict(set)\<close>: a missing key starts from the empty set.\<close>

definition get_set :: "('k \<times> string fset) list \<Rightarrow> 'k \<Rightarrow> string fset" where
  "get_set d k = (case map_of d k of None \<Rightarrow> {||} | Some s \<Rightarrow> s)"

definition add_ip :: "'k \<Rightarrow> string \<Rightarrow> ('k \<times> string fset) list \<Rightarrow> ('k \<times> string fset) list" where
  "add_ip k ip d = AList.update k (finsert ip (get_set d k)) d"

text \<open>
  \<^verbatim>\<open>Counter.most_common()\<close> is \<^verbatim>\<open>sorted(items, key=itemgetter(1), reverse=True)\<close>.
  Python's sort is stable, also with \<^verbatim>\<open>reverse=True\<close>: the result is descending in
  the key and entries with equal keys keep their order. That is the stable
  ascending sort on the negated key.
\<close>

definition most_common :: "'k counter \<Rightarrow> 'k counter" where
  "most_common counter = sort_key (\<lambda>item. - snd item) counter"

definition sorted_by_len_desc :: "('k \<times> string fset) list \<Rightarrow> ('k \<times> string fset) list" where
  "sorted_by_len_desc d = sort_key (\<lambda>item. - int (fcard (snd item))) d"

subsection \<open>The table printer\<close>

definition table_row :: "nat \<Rightarrow> string \<times> int \<Rightarrow> string" where
  "table_row width item = fmt_left width (fst item) @ '' '' @ fmt_right 8 (str_int (snd item))"

definition print_counter :: "string counter \<Rightarrow> string \<Rightarrow> string \<Rightarrow> bool \<Rightarrow> string list" where
  "print_counter counter head1 head2 sort_keys =
     (let width = max_default (map (\<lambda>item. length (fst item)) counter) (length head1);
          items = (if sort_keys then sort counter else most_common counter)
      in [fmt_left width head1 @ '' '' @ fmt_right 8 head2,
          replicate (width + 9) CHR ''-'']
         @ map (table_row width) items)"

subsection \<open>Task 1: failed logins\<close>

text \<open>
  The loops of the counting tasks have one shape:
  \<^verbatim>\<open>for line in fp: m = PATTERN.search(line); if m: counter[key(m)] += 1\<close>.
  \<open>count_loop\<close> is that loop, for the function that gives the key of a line that
  matches and \<open>None\<close> for a line that does not.
\<close>

definition count_step :: "(string \<Rightarrow> 'k option) \<Rightarrow> string \<Rightarrow> 'k counter \<Rightarrow> 'k counter" where
  "count_step key_of line counter =
     (case key_of line of None \<Rightarrow> counter | Some k \<Rightarrow> incr k counter)"

definition count_loop :: "(string \<Rightarrow> 'k option) \<Rightarrow> string list \<Rightarrow> 'k counter" where
  "count_loop key_of lines = fold (count_step key_of) lines []"

definition failed_login_ip :: "string \<Rightarrow> string option" where
  "failed_login_ip line =
     (case search FAILED_LOGIN_PATTERN line of None \<Rightarrow> None | Some m \<Rightarrow> Some (group m ''ip''))"

text \<open>The dictionary comprehension \<^verbatim>\<open>{ip: cnt for ip, cnt in counter.items() if cnt >= min_count}\<close>.\<close>

definition filter_min_count :: "int \<Rightarrow> 'k counter \<Rightarrow> 'k counter" where
  "filter_min_count min_count counter = filter (\<lambda>(ip, cnt). cnt \<ge> min_count) counter"

definition analyze_failed_logins :: "string list \<Rightarrow> int \<Rightarrow> string list" where
  "analyze_failed_logins lines min_count =
     (let counter = count_loop failed_login_ip lines;
          filtered = filter_min_count min_count counter
      in (''Failed login attempts (min '' @ str_int min_count @ '')'')
         # print_counter filtered ''IP'' ''Count'' False)"

subsection \<open>Task 2: connections per minute\<close>

text \<open>
  \<^verbatim>\<open>datetime.strptime(s, "%Y-%m-%dT%H:%M:%S")\<close> raises \<^verbatim>\<open>ValueError\<close> when the
  text is not a date and a time of the calendar. The model reads the texts of
  the fixed-width shape \<^verbatim>\<open>dddd-dd-ddTdd:dd:dd\<close>, which are the only ones the
  pattern lets through to it, and rejects every other text.
\<close>

datatype error = ValueError

record datetime =
  year :: nat
  month :: nat
  day :: nat
  hour :: nat
  minute :: nat
  second :: nat

definition is_leap :: "nat \<Rightarrow> bool" where
  "is_leap y = (y mod 4 = 0 \<and> (y mod 100 \<noteq> 0 \<or> y mod 400 = 0))"

definition days_in_month :: "nat \<Rightarrow> nat \<Rightarrow> nat" where
  "days_in_month y m =
     (if m = 2 then (if is_leap y then 29 else 28)
      else if m = 4 \<or> m = 6 \<or> m = 9 \<or> m = 11 then 30 else 31)"

definition nat_of_digits :: "string \<Rightarrow> nat" where
  "nat_of_digits ds = foldl (\<lambda>acc c. 10 * acc + digit_val c) 0 ds"

definition ts_shape :: "string \<Rightarrow> bool" where
  "ts_shape s =
     (length s = 19 \<and>
      list_all (\<lambda>i. isdigit (s ! i)) [0, 1, 2, 3, 5, 6, 8, 9, 11, 12, 14, 15, 17, 18] \<and>
      s ! 4 = CHR ''-'' \<and> s ! 7 = CHR ''-'' \<and> s ! 10 = CHR ''T'' \<and>
      s ! 13 = CHR '':'' \<and> s ! 16 = CHR '':'')"

definition strptime :: "string \<Rightarrow> error + datetime" where
  "strptime s =
     (if ts_shape s then
        (let y = nat_of_digits (take 4 s);
             mo = nat_of_digits (take 2 (drop 5 s));
             d = nat_of_digits (take 2 (drop 8 s));
             h = nat_of_digits (take 2 (drop 11 s));
             mi = nat_of_digits (take 2 (drop 14 s));
             sec = nat_of_digits (take 2 (drop 17 s))
         in if 1 \<le> y \<and> 1 \<le> mo \<and> mo \<le> 12 \<and> 1 \<le> d \<and> d \<le> days_in_month y mo
               \<and> h \<le> 23 \<and> mi \<le> 59 \<and> sec \<le> 59
            then Inr \<lparr>year = y, month = mo, day = d, hour = h, minute = mi, second = sec\<rparr>
            else Inl ValueError)
      else Inl ValueError)"

text \<open>
  \<^verbatim>\<open>dt.strftime("%Y-%m-%d %H:%M")\<close>. Month, day, hour and minute are printed with
  two digits. The year is printed by the C library, which does not pad it (glibc):
  a year below 1000 has fewer than four digits.
\<close>

definition pad2 :: "nat \<Rightarrow> string" where
  "pad2 n = [digit_char (n div 10), digit_char (n mod 10)]"

definition strftime :: "datetime \<Rightarrow> string" where
  "strftime dt =
     str_nat (year dt) @ ''-'' @ pad2 (month dt) @ ''-'' @ pad2 (day dt) @ '' ''
     @ pad2 (hour dt) @ '':'' @ pad2 (minute dt)"

text \<open>The loop of \<^verbatim>\<open>connections\<close>; the exception of \<^verbatim>\<open>strptime\<close> ends it.\<close>

fun connections_loop :: "string list \<Rightarrow> string counter \<Rightarrow> error + string counter" where
  "connections_loop [] per_min = Inr per_min"
| "connections_loop (line # rest) per_min =
     (case search NEW_CONN_PATTERN line of
        None \<Rightarrow> connections_loop rest per_min
      | Some m \<Rightarrow>
          (case strptime (take 19 (group m ''ts'')) of
             Inl e \<Rightarrow> Inl e
           | Inr dt \<Rightarrow> connections_loop rest (incr (strftime dt) per_min)))"

definition connections :: "string list \<Rightarrow> error + string list" where
  "connections lines =
     (case connections_loop lines [] of
        Inl e \<Rightarrow> Inl e
      | Inr per_min \<Rightarrow>
          Inr (''Connections per minute'' # print_counter per_min ''Timestamp'' ''Count'' True))"

text \<open>
  What the body of that loop does with one line: \<open>None\<close> when the pattern does not
  match, \<open>Some (Inl e)\<close> when \<^verbatim>\<open>strptime\<close> raises, \<open>Some (Inr b)\<close> when the
  counter of the minute \<open>b\<close> is incremented. \<open>minute_key\<close> is the key of a line
  that is counted.
\<close>

definition conn_minute :: "string \<Rightarrow> (error + string) option" where
  "conn_minute line =
     (case search NEW_CONN_PATTERN line of
        None \<Rightarrow> None
      | Some m \<Rightarrow>
          Some (case strptime (take 19 (group m ''ts'')) of
                  Inl e \<Rightarrow> Inl e
                | Inr dt \<Rightarrow> Inr (strftime dt)))"

definition minute_key :: "string \<Rightarrow> string option" where
  "minute_key line = (case conn_minute line of Some (Inr b) \<Rightarrow> Some b | _ \<Rightarrow> None)"

subsection \<open>Task 3: successful credentials\<close>

text \<open>
  The loops of the two tasks that collect the addresses of a key:
  \<^verbatim>\<open>for line in fp: m = PATTERN.search(line); if m: d[key(m)].add(m.group("ip"))\<close>.
\<close>

definition collect_step ::
  "(string \<Rightarrow> ('k \<times> string) option) \<Rightarrow> string \<Rightarrow> ('k \<times> string fset) list \<Rightarrow> ('k \<times> string fset) list" where
  "collect_step key_of line d =
     (case key_of line of None \<Rightarrow> d | Some (k, ip) \<Rightarrow> add_ip k ip d)"

definition collect_loop ::
  "(string \<Rightarrow> ('k \<times> string) option) \<Rightarrow> string list \<Rightarrow> ('k \<times> string fset) list" where
  "collect_loop key_of lines = fold (collect_step key_of) lines []"

definition success_cred :: "string \<Rightarrow> ((string \<times> string) \<times> string) option" where
  "success_cred line =
     (case search SUCCESS_LOGIN_PATTERN line of
        None \<Rightarrow> None
      | Some m \<Rightarrow> Some ((group m ''user'', group m ''pw''), group m ''ip''))"

definition creds_row :: "(string \<times> string) \<times> string fset \<Rightarrow> string" where
  "creds_row item =
     fmt_left 15 (fst (fst item)) @ '' '' @ fmt_left 15 (snd (fst item)) @ '' ''
     @ fmt_right 9 (str_int (int (fcard (snd item))))"

definition analyze_successful_creds :: "string list \<Rightarrow> string list" where
  "analyze_successful_creds lines =
     (let creds = collect_loop success_cred lines
      in [''Successful login credentials'',
          fmt_left 15 ''Username'' @ '' '' @ fmt_left 15 ''Password'' @ '' '' @ fmt_right 9 ''IP_Count'',
          replicate 41 CHR ''-'']
         @ map creds_row (sorted_by_len_desc creds))"

subsection \<open>Task 4: bots\<close>

definition fingerprint_ip :: "string \<Rightarrow> (string \<times> string) option" where
  "fingerprint_ip line =
     (case search FINGERPRINT_PATTERN line of
        None \<Rightarrow> None
      | Some m \<Rightarrow> Some (group m ''fp'', group m ''ip''))"

text \<open>The dictionary comprehension \<^verbatim>\<open>{fp: ips for fp, ips in fp_map.items() if len(ips) >= min_ips}\<close>.\<close>

definition filter_min_ips :: "int \<Rightarrow> ('k \<times> string fset) list \<Rightarrow> ('k \<times> string fset) list" where
  "filter_min_ips min_ips fp_map = filter (\<lambda>(fp, ips). int (fcard ips) \<ge> min_ips) fp_map"

definition bots_row :: "string \<times> string fset \<Rightarrow> string" where
  "bots_row item = fmt_left 47 (fst item) @ '' '' @ fmt_right 6 (str_int (int (fcard (snd item))))"

text \<open>The title has the character U+2265, written here as the three bytes of its UTF-8 form.\<close>

definition bots_title :: "int \<Rightarrow> string" where
  "bots_title min_ips =
     ''Fingerprints seen from '' @ [CHR 0xE2, CHR 0x89, CHR 0xA5] @ '' '' @ str_int min_ips
     @ '' unique IPs''"

definition identify_bots :: "string list \<Rightarrow> int \<Rightarrow> string list" where
  "identify_bots lines min_ips =
     (let fp_map = collect_loop fingerprint_ip lines;
          bots = filter_min_ips min_ips fp_map
      in [bots_title min_ips,
          fmt_left 47 ''Fingerprint'' @ '' '' @ fmt_right 6 ''IPs'',
          replicate 53 CHR ''-'']
         @ map bots_row (sorted_by_len_desc bots))"

subsection \<open>Extra task: top shell commands\<close>

definition shell_cmd :: "string \<Rightarrow> string option" where
  "shell_cmd line =
     (case search CMD_PATTERN line of None \<Rightarrow> None | Some m \<Rightarrow> Some (strip (group m ''cmd'')))"

definition top_commands :: "string list \<Rightarrow> string list" where
  "top_commands lines =
     (let counter = count_loop shell_cmd lines
      in ''Top shell commands'' # print_counter counter ''Command'' ''Count'' False)"

subsection \<open>The command line\<close>

text \<open>
  \<^verbatim>\<open>main\<close> after the arguments are parsed: the task, the lines of the log file and
  the two thresholds. \<open>Inr\<close> is a run that prints its report and ends with exit
  status 0; \<open>Inl\<close> is a run that an exception ends.
\<close>

datatype task = FailedLogins | Connections | SuccessfulCreds | IdentifyBots | TopCommands

fun main :: "task \<Rightarrow> string list \<Rightarrow> int \<Rightarrow> int \<Rightarrow> error + string list" where
  "main FailedLogins lines min_count min_ips = Inr (analyze_failed_logins lines min_count)"
| "main Connections lines min_count min_ips = connections lines"
| "main SuccessfulCreds lines min_count min_ips = Inr (analyze_successful_creds lines)"
| "main IdentifyBots lines min_count min_ips = Inr (identify_bots lines min_ips)"
| "main TopCommands lines min_count min_ips = Inr (top_commands lines)"

text \<open>The pattern that each task searches for in every line.\<close>

definition task_pattern :: "task \<Rightarrow> regex" where
  "task_pattern t =
     (case t of
        FailedLogins \<Rightarrow> FAILED_LOGIN_PATTERN
      | Connections \<Rightarrow> NEW_CONN_PATTERN
      | SuccessfulCreds \<Rightarrow> SUCCESS_LOGIN_PATTERN
      | IdentifyBots \<Rightarrow> FINGERPRINT_PATTERN
      | TopCommands \<Rightarrow> CMD_PATTERN)"

subsection \<open>The entries behind the data rows, and the order of first occurrence\<close>

text \<open>The entries that each report with a descending order prints, in the printed order.\<close>

definition failed_logins_items :: "string list \<Rightarrow> int \<Rightarrow> string counter" where
  "failed_logins_items lines min_count =
     most_common (filter_min_count min_count (count_loop failed_login_ip lines))"

definition top_commands_items :: "string list \<Rightarrow> string counter" where
  "top_commands_items lines = most_common (count_loop shell_cmd lines)"

definition creds_items :: "string list \<Rightarrow> ((string \<times> string) \<times> string fset) list" where
  "creds_items lines = sorted_by_len_desc (collect_loop success_cred lines)"

definition bots_items :: "string list \<Rightarrow> int \<Rightarrow> (string \<times> string fset) list" where
  "bots_items lines min_ips =
     sorted_by_len_desc (filter_min_ips min_ips (collect_loop fingerprint_ip lines))"

text \<open>The elements of a list in the order of their first occurrence.\<close>

fun first_seen :: "'a list \<Rightarrow> 'a list" where
  "first_seen [] = []"
| "first_seen (x # xs) = x # filter (\<lambda>y. y \<noteq> x) (first_seen xs)"

text \<open>
  The header row in the words of the specification: a left-aligned key column as
  wide as the longest key, or as the header text when that is longer, then a
  space and a right-aligned metric column of width \<open>w\<close>.
\<close>

definition spec_header_row :: "string list \<Rightarrow> string \<Rightarrow> string \<Rightarrow> nat \<Rightarrow> string" where
  "spec_header_row keys head1 head2 w =
     fmt_left (fold max (map length keys) (length head1)) head1 @ '' '' @ fmt_right w head2"

subsection \<open>Log lines used as examples\<close>

definition failed_line_a :: string where
  "failed_line_a = ''[HoneyPotSSHTransport,1,1.2.3.4] login attempt [root/123] failed''"

definition failed_line_b :: string where
  "failed_line_b = ''[HoneyPotSSHTransport,2,5.6.7.8] login attempt [admin/admin] failed''"

definition other_line :: string where
  "other_line = ''[HoneyPotSSHTransport,1,1.2.3.4] connection lost''"

definition fp_line_a :: string where
  "fp_line_a = ''[HoneyPotSSHTransport,3,1.2.3.4] SSH client hassh fingerprint: 0123456789abcdef0123456789abcdef''"

definition fp_line_b :: string where
  "fp_line_b = ''[HoneyPotSSHTransport,4,5.6.7.8] SSH client hassh fingerprint: 0123456789abcdef0123456789abcdef''"

definition fp_line_c :: string where
  "fp_line_c = ''[HoneyPotSSHTransport,5,1.2.3.4] SSH client hassh fingerprint: ffffffffffffffffffffffffffffffff''"

definition success_line_a :: string where
  "success_line_a = ''[HoneyPotSSHTransport,5,1.2.3.4] login attempt [root/admin] succeeded''"

definition success_line_b :: string where
  "success_line_b = ''[HoneyPotSSHTransport,6,5.6.7.8] login attempt [root/admin] succeeded''"

definition success_line_c :: string where
  "success_line_c = ''[HoneyPotSSHTransport,7,9.9.9.9] login attempt [root/admin] succeeded''"

definition success_line_d :: string where
  "success_line_d = ''[HoneyPotSSHTransport,8,9.9.9.9] login attempt [root/1234] succeeded''"

definition conn_line_a :: string where
  "conn_line_a = ''2023-01-01T10:15:02Z [cowrie.ssh.factory.CowrieSSHFactory] New connection: 1.2.3.4:5555 (10.0.0.1:22)''"

definition conn_line_b :: string where
  "conn_line_b = ''2023-01-01T10:15:47.250Z [cowrie.ssh.factory.CowrieSSHFactory] New connection: 5.6.7.8:4444 (10.0.0.1:22)''"

definition conn_line_c :: string where
  "conn_line_c = ''2023-01-01T10:14:59Z [cowrie.ssh.factory.CowrieSSHFactory] New connection: 5.6.7.8:4443 (10.0.0.1:22)''"

definition conn_line_bad_day :: string where
  "conn_line_bad_day = ''2023-02-30T10:15:02Z [cowrie.ssh.factory.CowrieSSHFactory] New connection: 1.2.3.4:5555 (10.0.0.1:22)''"

definition conn_line_year_999 :: string where
  "conn_line_year_999 = ''0999-01-02T03:04:05Z [cowrie.ssh.factory.CowrieSSHFactory] New connection: 1.2.3.4:5555 (10.0.0.1:22)''"

definition cmd_line_ls :: string where
  "cmd_line_ls = ''[HoneyPotSSHTransport,9,1.2.3.4] CMD: ls ''"

definition cmd_line_w :: string where
  "cmd_line_w = ''[HoneyPotSSHTransport,9,1.2.3.4] CMD: w''"

section \<open>Properties of the matcher\<close>

lemma rep_counts_bounds:
  "n \<in> set (rep_counts k lo hi greedy) \<Longrightarrow>
     lo \<le> n \<and> n \<le> k \<and> (case hi of None \<Rightarrow> True | Some h \<Rightarrow> n \<le> h)"
  by (auto simp: rep_counts_def Let_def split: option.splits if_splits)

lemma take_takeWhile_all:
  assumes "n \<le> length (takeWhile P s)"
  shows "\<forall>c \<in> set (take n s). P c"
proof -
  have "take n s = take n (takeWhile P s @ dropWhile P s)"
    by simp
  also have "\<dots> = take n (takeWhile P s)"
    using assms by (simp del: takeWhile_dropWhile_id)
  finally show ?thesis
    by (metis in_set_takeD set_takeWhileD)
qed

lemma rmatch_sound:
  "(s', g') \<in> set (rmatch r (s, g)) \<Longrightarrow>
     \<exists>w new. s = w @ s' \<and> w \<in> lang r \<and> g' = new @ g
       \<and> sure_groups r \<subseteq> fst ` set new \<and> fst ` set new \<subseteq> group_names r"
proof (induction r arbitrary: s g s' g')
  case (Lit t)
  then have "s = t @ s'" "g' = g"
    by (auto split: if_splits) (metis append_take_drop_id)
  then show ?case by simp
next
  case (Rep P lo hi greedy)
  then obtain n where n: "n \<in> set (rep_counts (length (takeWhile P s)) lo hi greedy)"
    and s': "s' = drop n s" and g': "g' = g"
    by auto
  note b = rep_counts_bounds [OF n]
  have "n \<le> length s"
    using b length_takeWhile_le [of P s] by (meson order_trans)
  then have "length (take n s) = n"
    by simp
  moreover have "\<forall>c \<in> set (take n s). P c"
    using b by (intro take_takeWhile_all) simp
  ultimately have "take n s \<in> lang (Rep P lo hi greedy)"
    using b by (auto split: option.splits)
  moreover have "s = take n s @ s'"
    by (simp add: s')
  ultimately show ?case
    using g' by (intro exI [of _ "take n s"] exI [of _ "[]"]) simp
next
  case (Seq a b)
  from Seq.prems obtain s1 g1 where 1: "(s1, g1) \<in> set (rmatch a (s, g))"
    and 2: "(s', g') \<in> set (rmatch b (s1, g1))"
    by auto
  from Seq.IH(1) [OF 1] obtain u n1 where u: "s = u @ s1" "u \<in> lang a" "g1 = n1 @ g"
    "sure_groups a \<subseteq> fst ` set n1" "fst ` set n1 \<subseteq> group_names a"
    by blast
  from Seq.IH(2) [OF 2] obtain v n2 where v: "s1 = v @ s'" "v \<in> lang b" "g' = n2 @ g1"
    "sure_groups b \<subseteq> fst ` set n2" "fst ` set n2 \<subseteq> group_names b"
    by blast
  have "s = (u @ v) @ s'" "u @ v \<in> lang (Seq a b)" "g' = (n2 @ n1) @ g"
    using u v by auto
  moreover have "sure_groups (Seq a b) \<subseteq> fst ` set (n2 @ n1)"
    "fst ` set (n2 @ n1) \<subseteq> group_names (Seq a b)"
    using u(4,5) v(4,5) by auto
  ultimately show ?case
    by blast
next
  case (Opt a)
  from Opt.prems consider "(s', g') \<in> set (rmatch a (s, g))" | "s' = s" "g' = g"
    by auto
  then show ?case
  proof cases
    case 1
    from Opt.IH [OF 1] show ?thesis
      by (auto simp del: set_append)
  next
    case 2
    then show ?thesis
      by (intro exI [of _ "[]"]) simp
  qed
next
  case (Grp name a)
  from Grp.prems obtain g0 where 1: "(s', g0) \<in> set (rmatch a (s, g))"
    and g': "g' = (name, take (length s - length s') s) # g0"
    by auto
  from Grp.IH [OF 1] obtain w new where w: "s = w @ s'" "w \<in> lang a" "g0 = new @ g"
    "sure_groups a \<subseteq> fst ` set new" "fst ` set new \<subseteq> group_names a"
    by blast
  have "g' = ((name, w) # new) @ g"
    using g' w(1,3) by simp
  moreover have "sure_groups (Grp name a) \<subseteq> fst ` set ((name, w) # new)"
    "fst ` set ((name, w) # new) \<subseteq> group_names (Grp name a)"
    using w(4,5) by auto
  ultimately show ?case
    using w(1,2) by (intro exI [of _ w] exI [of _ "(name, w) # new"]) simp
qed

lemma search_Some:
  "search r line = Some m \<Longrightarrow> \<exists>s s'. (s', m) \<in> set (rmatch r (s, []))"
proof (induction line)
  case Nil
  then obtain a ps where "rmatch r ([], []) = (a, m) # ps"
    by (auto split: list.splits)
  then have "(a, m) \<in> set (rmatch r ([], []))"
    by simp
  then show ?case by blast
next
  case (Cons c cs)
  show ?case
  proof (cases "rmatch r (c # cs, [])")
    case Nil
    with Cons show ?thesis by simp
  next
    case (Cons p ps)
    with Cons.prems have "(fst p, m) \<in> set (rmatch r (c # cs, []))"
      by (cases p) auto
    then show ?thesis by blast
  qed
qed

lemma search_groups:
  assumes "search r line = Some m" "name \<in> sure_groups r"
  shows "map_of m name \<noteq> None"
proof -
  from search_Some [OF assms(1)] obtain s s' where "(s', m) \<in> set (rmatch r (s, []))"
    by blast
  from rmatch_sound [OF this] assms(2) have "name \<in> fst ` set m"
    by auto
  then show ?thesis
    by (simp add: map_of_eq_None_iff)
qed

lemma digits_fixed:
  assumes "w \<in> lang (digitsN n)"
  shows "length w = n \<and> (\<forall>c \<in> set w. isdigit c)"
  using assms by (auto simp: digitsN_def)

lemma list2: "length w = 2 \<Longrightarrow> \<exists>a b. w = [a, b]"
  by (auto simp: numeral_2_eq_2 length_Suc_conv)

lemma list4: "length w = 4 \<Longrightarrow> \<exists>a b c d. w = [a, b, c, d]"
  by (auto simp: numeral_eq_Suc length_Suc_conv)

lemma ts_lang_shape:
  assumes "w \<in> lang (seqs [digitsN 4, Lit ''-'', digitsN 2, Lit ''-'', digitsN 2, Lit ''T'',
                             digitsN 2, Lit '':'', digitsN 2, Lit '':'', digitsN 2,
                             Opt (Seq (Lit ''.'') digits1)])"
  shows "ts_shape (take 19 w)"
proof -
  from assms obtain y mo d h mi sec f where
    w: "w = y @ ''-'' @ mo @ ''-'' @ d @ ''T'' @ h @ '':'' @ mi @ '':'' @ sec @ f"
    and l: "y \<in> lang (digitsN 4)" "mo \<in> lang (digitsN 2)" "d \<in> lang (digitsN 2)"
      "h \<in> lang (digitsN 2)" "mi \<in> lang (digitsN 2)" "sec \<in> lang (digitsN 2)"
    by (auto simp del: lang.simps(4))
  note dg = l [THEN digits_fixed]
  obtain y1 y2 y3 y4 where y: "y = [y1, y2, y3, y4]"
    using dg(1) list4 by blast
  obtain m1 m2 where mo: "mo = [m1, m2]"
    using dg(2) list2 by blast
  obtain d1 d2 where d: "d = [d1, d2]"
    using dg(3) list2 by blast
  obtain h1 h2 where h: "h = [h1, h2]"
    using dg(4) list2 by blast
  obtain n1 n2 where mi: "mi = [n1, n2]"
    using dg(5) list2 by blast
  obtain s1 s2 where sec: "sec = [s1, s2]"
    using dg(6) list2 by blast
  show ?thesis
    using dg unfolding w y mo d h mi sec by (simp add: ts_shape_def)
qed

lemma rmatch_SeqE:
  "(s', g') \<in> set (rmatch (Seq a b) st) \<Longrightarrow>
     \<exists>s1 g1. (s1, g1) \<in> set (rmatch a st) \<and> (s', g') \<in> set (rmatch b (s1, g1))"
  by auto

lemma rmatch_GrpE:
  "(s', g') \<in> set (rmatch (Grp name a) (s, g)) \<Longrightarrow>
     \<exists>g0. (s', g0) \<in> set (rmatch a (s, g)) \<and> g' = (name, take (length s - length s') s) # g0"
  by auto

lemma new_conn_ts_shape:
  assumes "search NEW_CONN_PATTERN line = Some m"
  shows "ts_shape (take 19 (group m ''ts''))"
proof -
  let ?T = "seqs [digitsN 4, Lit ''-'', digitsN 2, Lit ''-'', digitsN 2, Lit ''T'',
                  digitsN 2, Lit '':'', digitsN 2, Lit '':'', digitsN 2,
                  Opt (Seq (Lit ''.'') digits1)]"
  let ?R = "seqs [Lit ''Z '', Lit ''[cowrie.ssh.factory.CowrieSSHFactory] New connection: '',
                  Grp ''ip'' ipv4, Lit '':'', digits1]"
  have p: "NEW_CONN_PATTERN = Seq (Grp ''ts'' ?T) ?R"
    by (simp add: NEW_CONN_PATTERN_def)
  from search_Some [OF assms] obtain s s' where "(s', m) \<in> set (rmatch (Seq (Grp ''ts'' ?T) ?R) (s, []))"
    unfolding p by blast
  from rmatch_SeqE [OF this] obtain s1 g1 where 1: "(s1, g1) \<in> set (rmatch (Grp ''ts'' ?T) (s, []))"
    and 2: "(s', m) \<in> set (rmatch ?R (s1, g1))"
    by blast
  from rmatch_GrpE [OF 1] obtain g0 where 3: "(s1, g0) \<in> set (rmatch ?T (s, []))"
    and g1: "g1 = (''ts'', take (length s - length s1) s) # g0"
    by blast
  from rmatch_sound [OF 3] obtain w new where w: "s = w @ s1" "w \<in> lang ?T" "g0 = new @ []"
    "fst ` set new \<subseteq> group_names ?T"
    by blast
  have "group_names ?T = {}"
    by (simp add: digitsN_def digits1_def)
  with w have g1': "g1 = [(''ts'', w)]"
    using g1 by simp
  from rmatch_sound [OF 2] obtain new' where m: "m = new' @ g1" "fst ` set new' \<subseteq> group_names ?R"
    by blast
  have "group_names ?R = {''ip''}"
    by (simp add: digits1_def ipv4_def)
  with m have "''ts'' \<notin> fst ` set new'"
    by auto
  then have "map_of new' ''ts'' = None"
    by (simp add: map_of_eq_None_iff)
  then have "map_of m ''ts'' = Some w"
    unfolding m(1) g1' by (simp add: map_add_def)
  then have "group m ''ts'' = w"
    by (simp add: group_def)
  with ts_lang_shape [OF w(2)] show ?thesis
    by simp
qed


lemma pattern_groups:
  "sure_groups FAILED_LOGIN_PATTERN = {''ip''}"
  "sure_groups NEW_CONN_PATTERN = {''ts'', ''ip''}"
  "sure_groups SUCCESS_LOGIN_PATTERN = {''ip'', ''user'', ''pw''}"
  "sure_groups FINGERPRINT_PATTERN = {''ip'', ''fp''}"
  "sure_groups CMD_PATTERN = {''cmd''}"
  by (auto simp: FAILED_LOGIN_PATTERN_def NEW_CONN_PATTERN_def SUCCESS_LOGIN_PATTERN_def
      FINGERPRINT_PATTERN_def CMD_PATTERN_def transport_marker_def ipv4_def digits1_def
      digitsN_def lazy_any_def)

section \<open>Properties of the counting loop\<close>

lemma map_of_incr:
  "map_of (incr k counter) k' = (if k' = k then Some (get_count counter k + 1) else map_of counter k')"
  by (simp add: incr_def update_conv')

lemma get_count_incr:
  "get_count (incr k counter) k' = (if k' = k then get_count counter k + 1 else get_count counter k')"
  by (simp add: get_count_def map_of_incr)

lemma distinct_incr: "distinct (map fst counter) \<Longrightarrow> distinct (map fst (incr k counter))"
  by (simp add: incr_def distinct_update)

lemma keys_incr:
  "map fst (incr k counter) = (if k \<in> set (map fst counter) then map fst counter else map fst counter @ [k])"
  by (simp add: incr_def update_keys)

lemma get_count_step:
  "get_count (count_step key_of line counter) k =
     get_count counter k + (if key_of line = Some k then 1 else 0)"
  by (simp add: count_step_def get_count_incr split: option.splits)

lemma get_count_fold:
  "get_count (fold (count_step key_of) lines counter) k =
     get_count counter k + int (length (filter (\<lambda>l. key_of l = Some k) lines))"
  by (induction lines arbitrary: counter) (simp_all add: get_count_step)

lemma get_count_loop:
  "get_count (count_loop key_of lines) k = int (length (filter (\<lambda>l. key_of l = Some k) lines))"
  unfolding count_loop_def get_count_fold by (simp add: get_count_def)

lemma count_loop_snoc:
  "count_loop key_of (lines @ [line]) = count_step key_of line (count_loop key_of lines)"
  by (simp add: count_loop_def)

section \<open>Properties of the loop that collects addresses\<close>

lemma map_of_add_ip:
  "map_of (add_ip k ip d) k' = (if k' = k then Some (finsert ip (get_set d k)) else map_of d k')"
  by (simp add: add_ip_def update_conv')

lemma get_set_add_ip:
  "get_set (add_ip k ip d) k' = (if k' = k then finsert ip (get_set d k) else get_set d k')"
  by (simp add: get_set_def map_of_add_ip)

lemma add_ip_idem: "ip |\<in>| get_set d k \<Longrightarrow> add_ip k ip d = d"
proof -
  assume a: "ip |\<in>| get_set d k"
  then obtain s where s: "map_of d k = Some s" "ip |\<in>| s"
    by (auto simp: get_set_def split: option.splits)
  then have "finsert ip (get_set d k) = s"
    by (auto simp: get_set_def)
  with s show ?thesis
    by (simp add: add_ip_def update_triv)
qed

lemma distinct_add_ip: "distinct (map fst d) \<Longrightarrow> distinct (map fst (add_ip k ip d))"
  by (simp add: add_ip_def distinct_update)

lemma get_set_collect_step:
  "ip |\<in>| get_set (collect_step key_of line d) k
     \<longleftrightarrow> ip |\<in>| get_set d k \<or> key_of line = Some (k, ip)"
  by (auto simp: collect_step_def get_set_add_ip split: option.splits)

lemma get_set_collect_fold:
  "ip |\<in>| get_set (fold (collect_step key_of) lines d) k
     \<longleftrightarrow> ip |\<in>| get_set d k \<or> (\<exists>l \<in> set lines. key_of l = Some (k, ip))"
  by (induction lines arbitrary: d) (auto simp: get_set_collect_step)

lemma get_set_collect_loop:
  "ip |\<in>| get_set (collect_loop key_of lines) k \<longleftrightarrow> (\<exists>l \<in> set lines. key_of l = Some (k, ip))"
  unfolding collect_loop_def get_set_collect_fold by (simp add: get_set_def)

lemma distinct_collect_fold:
  "distinct (map fst d) \<Longrightarrow> distinct (map fst (fold (collect_step key_of) lines d))"
  by (induction lines arbitrary: d) (auto simp: collect_step_def distinct_add_ip split: option.splits)

lemma distinct_collect_loop: "distinct (map fst (collect_loop key_of lines))"
  by (simp add: collect_loop_def distinct_collect_fold)

lemma collect_loop_entry:
  assumes "(k, ips) \<in> set (collect_loop key_of lines)"
  shows "fset ips = {ip. \<exists>l \<in> set lines. key_of l = Some (k, ip)}"
proof -
  have "map_of (collect_loop key_of lines) k = Some ips"
    using distinct_collect_loop assms by (rule map_of_is_SomeI)
  then have "get_set (collect_loop key_of lines) k = ips"
    by (simp add: get_set_def)
  then show ?thesis
    using get_set_collect_loop [of _ key_of lines k] by auto
qed

lemma collect_loop_duplicate:
  assumes "key_of line = Some (k, ip)"
  shows "collect_loop key_of (pre @ [line] @ mid @ [line] @ post)
           = collect_loop key_of (pre @ [line] @ mid @ post)"
proof -
  let ?d = "fold (collect_step key_of) (pre @ [line] @ mid) []"
  have "ip |\<in>| get_set ?d k"
    using assms by (simp only: get_set_collect_fold) auto
  then have "collect_step key_of line ?d = ?d"
    using assms by (simp add: collect_step_def add_ip_idem)
  then show ?thesis
    by (simp add: collect_loop_def)
qed

section \<open>Lines that do not match, and empty tables\<close>

lemma count_step_None: "key_of line = None \<Longrightarrow> count_step key_of line counter = counter"
  by (simp add: count_step_def)

lemma collect_step_None: "key_of line = None \<Longrightarrow> collect_step key_of line d = d"
  by (simp add: collect_step_def)

lemma count_loop_skip:
  "key_of line = None \<Longrightarrow> count_loop key_of (pre @ line # post) = count_loop key_of (pre @ post)"
  by (simp add: count_loop_def count_step_None)

lemma collect_loop_skip:
  "key_of line = None \<Longrightarrow> collect_loop key_of (pre @ line # post) = collect_loop key_of (pre @ post)"
  by (simp add: collect_loop_def collect_step_None)

lemma connections_loop_append:
  "connections_loop (pre @ rest) per_min =
     (case connections_loop pre per_min of Inl e \<Rightarrow> Inl e | Inr c \<Rightarrow> connections_loop rest c)"
  by (induction pre arbitrary: per_min) (simp_all split: option.splits sum.splits)

lemma connections_loop_skip:
  "search NEW_CONN_PATTERN line = None \<Longrightarrow>
     connections_loop (pre @ line # post) per_min = connections_loop (pre @ post) per_min"
  by (simp add: connections_loop_append split: sum.splits)

lemma count_loop_no_match:
  "\<forall>l \<in> set lines. key_of l = None \<Longrightarrow> count_loop key_of lines = []"
  unfolding count_loop_def by (induction lines) (simp_all add: count_step_None)

lemma collect_loop_no_match:
  "\<forall>l \<in> set lines. key_of l = None \<Longrightarrow> collect_loop key_of lines = []"
  unfolding collect_loop_def by (induction lines) (simp_all add: collect_step_None)

lemma connections_loop_no_match:
  "\<forall>l \<in> set lines. search NEW_CONN_PATTERN l = None \<Longrightarrow> connections_loop lines per_min = Inr per_min"
  by (induction lines) simp_all

lemma print_counter_empty:
  "print_counter [] head1 head2 sort_keys =
     [fmt_left (length head1) head1 @ '' '' @ fmt_right 8 head2, replicate (length head1 + 9) CHR ''-'']"
  by (simp add: print_counter_def most_common_def Let_def)

lemma empty_failed: "print_counter [] ''IP'' ''Count'' False = [''IP    Count'', ''-----------'']"
  by code_simp
lemma empty_conn: "print_counter [] ''Timestamp'' ''Count'' True = [''Timestamp    Count'', ''------------------'']"
  by code_simp
lemma empty_cmd: "print_counter [] ''Command'' ''Count'' False = [''Command    Count'', ''----------------'']"
  by code_simp
lemma creds_header: "fmt_left 15 ''Username'' @ '' '' @ fmt_left 15 ''Password'' @ '' '' @ fmt_right 9 ''IP_Count''
   = ''Username        Password         IP_Count''"
  by code_simp
lemma bots_header: "fmt_left 47 ''Fingerprint'' @ '' '' @ fmt_right 6 ''IPs''
   = ''Fingerprint                                        IPs''"
  by code_simp
lemma rule41: "replicate 41 CHR ''-'' = ''-----------------------------------------''"
  by code_simp
lemma rule53: "replicate 53 CHR ''-'' = ''-----------------------------------------------------''"
  by code_simp

section \<open>The header row of the table printer\<close>

lemma fold_max_Max: "fold max xs (a::nat) = Max (insert a (set xs))"
  using Max.set_eq_fold [of a xs] by simp

lemma max_default_Max: "xs \<noteq> [] \<Longrightarrow> max_default xs d = Max (set xs)"
  by (cases xs) (simp_all add: fold_max_Max)

lemma fmt_left_max: "fmt_left (max w (length s)) s = fmt_left w s"
  by (simp add: fmt_left_def)

lemma fold_max_default: "fold max xs d = max (max_default xs d) d"
proof (cases xs)
  case Nil
  then show ?thesis by simp
next
  case (Cons x ys)
  then have "fold max xs d = Max (insert d (set xs))"
    by (simp only: fold_max_Max)
  also have "\<dots> = max d (Max (set xs))"
    using Cons by simp
  finally show ?thesis
    using Cons by (simp add: fold_max_Max max.commute)
qed

lemma print_counter_header:
  "print_counter counter head1 head2 sort_keys ! 0 = spec_header_row (map fst counter) head1 head2 8"
proof -
  have "map length (map fst counter) = map (\<lambda>item. length (fst item)) counter"
    by simp
  then show ?thesis
    by (simp add: print_counter_def spec_header_row_def Let_def fold_max_default fmt_left_max del: map_map)
qed

section \<open>The descending order of the data rows\<close>

lemma sort_key_neg_desc:
  fixes f :: "'a \<Rightarrow> int"
  shows "sorted_wrt (\<lambda>a b. f a \<ge> f b) (sort_key (\<lambda>x. - f x) xs)"
proof -
  have "sorted (map (\<lambda>x. - f x) (sort_key (\<lambda>x. - f x) xs))"
    by (rule sorted_sort_key)
  then show ?thesis
    by (simp add: sorted_map)
qed

lemma most_common_sorted: "sorted_wrt (\<lambda>a b. snd a \<ge> snd b) (most_common counter)"
  unfolding most_common_def by (rule sort_key_neg_desc)

lemma sorted_by_len_desc_sorted:
  "sorted_wrt (\<lambda>a b. fcard (snd a) \<ge> fcard (snd b)) (sorted_by_len_desc d)"
  using sort_key_neg_desc [of "\<lambda>item. int (fcard (snd item))" d]
  by (simp add: sorted_by_len_desc_def)

lemma sorted_desc_index:
  assumes "sorted_wrt (\<lambda>a b. f a \<ge> (f b :: nat)) xs" "i < length xs" "j < length xs" "f (xs ! i) > f (xs ! j)"
  shows "i < j"
proof (rule ccontr)
  assume "\<not> i < j"
  with assms(4) have "j < i"
    by (cases "i = j") auto
  with assms(1,2) have "f (xs ! j) \<ge> f (xs ! i)"
    by (simp add: sorted_wrt_iff_nth_less)
  with assms(4) show False by simp
qed

lemma analyze_failed_logins_rows:
  "\<exists>w. analyze_failed_logins lines min_count
     = [''Failed login attempts (min '' @ str_int min_count @ '')'',
        fmt_left w ''IP'' @ '' '' @ fmt_right 8 ''Count'',
        replicate (w + 9) CHR ''-'']
       @ map (table_row w) (failed_logins_items lines min_count)"
  by (simp add: analyze_failed_logins_def print_counter_def failed_logins_items_def Let_def)

lemma top_commands_rows:
  "\<exists>w. top_commands lines
     = [''Top shell commands'',
        fmt_left w ''Command'' @ '' '' @ fmt_right 8 ''Count'',
        replicate (w + 9) CHR ''-'']
       @ map (table_row w) (top_commands_items lines)"
  by (simp add: top_commands_def print_counter_def top_commands_items_def Let_def)

lemma analyze_successful_creds_rows:
  "analyze_successful_creds lines
     = [''Successful login credentials'',
        ''Username        Password         IP_Count'',
        ''-----------------------------------------'']
       @ map creds_row (creds_items lines)"
  unfolding analyze_successful_creds_def Let_def creds_header rule41 creds_items_def ..

lemma identify_bots_rows:
  "identify_bots lines min_ips
     = [bots_title min_ips,
        ''Fingerprint                                        IPs'',
        ''-----------------------------------------------------'']
       @ map bots_row (bots_items lines min_ips)"
  unfolding identify_bots_def Let_def bots_header rule53 bots_items_def ..

section \<open>The order of the keys of a dictionary, and ties\<close>

lemma keys_set_incr: "fst ` set (incr k counter) = insert k (fst ` set counter)"
proof -
  have "set (map fst (incr k counter)) = insert k (set (map fst counter))"
    unfolding keys_incr by auto
  then show ?thesis by simp
qed

lemma keys_add_ip:
  "map fst (add_ip k ip d) = (if k \<in> set (map fst d) then map fst d else map fst d @ [k])"
  by (simp add: add_ip_def update_keys)

lemma keys_set_add_ip: "fst ` set (add_ip k ip d) = insert k (fst ` set d)"
proof -
  have "set (map fst (add_ip k ip d)) = insert k (set (map fst d))"
    unfolding keys_add_ip by auto
  then show ?thesis by simp
qed

lemma keys_count_fold:
  "map fst (fold (count_step key_of) lines counter)
     = map fst counter
       @ filter (\<lambda>k. k \<notin> fst ` set counter) (first_seen (List.map_filter key_of lines))"
proof (induction lines arbitrary: counter)
  case Nil
  then show ?case by (simp add: List.map_filter_simps)
next
  case (Cons line rest)
  show ?case
  proof (cases "key_of line")
    case None
    then show ?thesis
      using Cons.IH [of counter] by (simp add: count_step_def List.map_filter_simps)
  next
    case (Some k)
    have "filter (\<lambda>y. y \<notin> fst ` set counter) (filter (\<lambda>y. y \<noteq> k) xs)
            = filter (\<lambda>y. y \<notin> insert k (fst ` set counter)) xs" for xs
      by (induction xs) auto
    moreover have "k \<in> fst ` set counter \<Longrightarrow> insert k (fst ` set counter) = fst ` set counter"
      by auto
    ultimately show ?thesis
      using Some Cons.IH [of "incr k counter"]
      by (auto simp: count_step_def List.map_filter_simps keys_incr keys_set_incr)
  qed
qed

lemma keys_count_loop:
  "map fst (count_loop key_of lines) = first_seen (List.map_filter key_of lines)"
  by (simp add: count_loop_def keys_count_fold)

lemma keys_collect_fold:
  "map fst (fold (collect_step key_of) lines d)
     = map fst d
       @ filter (\<lambda>k. k \<notin> fst ` set d) (first_seen (map fst (List.map_filter key_of lines)))"
proof (induction lines arbitrary: d)
  case Nil
  then show ?case by (simp add: List.map_filter_simps)
next
  case (Cons line rest)
  show ?case
  proof (cases "key_of line")
    case None
    then show ?thesis
      using Cons.IH [of d] by (simp add: collect_step_def List.map_filter_simps)
  next
    case (Some p)
    obtain k ip where p: "p = (k, ip)" by (cases p)
    have "filter (\<lambda>y. y \<notin> fst ` set d) (filter (\<lambda>y. y \<noteq> k) xs)
            = filter (\<lambda>y. y \<notin> insert k (fst ` set d)) xs" for xs
      by (induction xs) auto
    moreover have "k \<in> fst ` set d \<Longrightarrow> insert k (fst ` set d) = fst ` set d"
      by auto
    ultimately show ?thesis
      using Some p Cons.IH [of "add_ip k ip d"]
      by (auto simp: collect_step_def List.map_filter_simps keys_add_ip keys_set_add_ip)
  qed
qed

lemma keys_collect_loop:
  "map fst (collect_loop key_of lines) = first_seen (map fst (List.map_filter key_of lines))"
  by (simp add: collect_loop_def keys_collect_fold)

lemma distinct_count_fold:
  "distinct (map fst counter) \<Longrightarrow> distinct (map fst (fold (count_step key_of) lines counter))"
  by (induction lines arbitrary: counter) (auto simp: count_step_def distinct_incr split: option.splits)

lemma distinct_count_loop: "distinct (map fst (count_loop key_of lines))"
  by (simp add: count_loop_def distinct_count_fold)

lemma alist_filter_keys:
  "distinct (map fst xs) \<Longrightarrow>
     map fst (filter (\<lambda>item. P (snd item)) xs) = filter (\<lambda>k. \<forall>v. map_of xs k = Some v \<longrightarrow> P v) (map fst xs)"
proof (induction xs)
  case Nil
  then show ?case by simp
next
  case (Cons x xs)
  have "map_of (x # xs) k = map_of xs k" if "k \<in> set (map fst xs)" for k
    using that Cons.prems by (cases x) auto
  then have "filter (\<lambda>k. \<forall>v. map_of (x # xs) k = Some v \<longrightarrow> P v) (map fst xs)
          = filter (\<lambda>k. \<forall>v. map_of xs k = Some v \<longrightarrow> P v) (map fst xs)"
    by (intro filter_cong) simp_all
  with Cons show ?case
    by (cases x) auto
qed

lemma alist_filter_keys_count:
  assumes "distinct (map fst xs)"
  shows "map fst (filter (\<lambda>item. P (snd item)) xs) = filter (\<lambda>k. P (get_count xs k)) (map fst xs)"
proof -
  have "(\<forall>v. map_of xs k = Some v \<longrightarrow> P v) = P (get_count xs k)" if "k \<in> set (map fst xs)" for k
  proof -
    from that obtain v where "map_of xs k = Some v"
      by (metis map_of_eq_None_iff not_Some_eq set_map)
    then show ?thesis by (simp add: get_count_def)
  qed
  then have "filter (\<lambda>k. \<forall>v. map_of xs k = Some v \<longrightarrow> P v) (map fst xs)
               = filter (\<lambda>k. P (get_count xs k)) (map fst xs)"
    by (intro filter_cong) simp_all
  with alist_filter_keys [OF assms, of P] show ?thesis by simp
qed

lemma alist_filter_keys_set:
  assumes "distinct (map fst xs)"
  shows "map fst (filter (\<lambda>item. P (snd item)) xs) = filter (\<lambda>k. P (get_set xs k)) (map fst xs)"
proof -
  have "(\<forall>v. map_of xs k = Some v \<longrightarrow> P v) = P (get_set xs k)" if "k \<in> set (map fst xs)" for k
  proof -
    from that obtain v where "map_of xs k = Some v"
      by (metis map_of_eq_None_iff not_Some_eq set_map)
    then show ?thesis by (simp add: get_set_def)
  qed
  then have "filter (\<lambda>k. \<forall>v. map_of xs k = Some v \<longrightarrow> P v) (map fst xs)
               = filter (\<lambda>k. P (get_set xs k)) (map fst xs)"
    by (intro filter_cong) simp_all
  with alist_filter_keys [OF assms, of P] show ?thesis by simp
qed

lemma most_common_ties_min:
  assumes "distinct (map fst xs)"
  shows "map fst (filter (\<lambda>item. snd item = n) (most_common (filter_min_count m xs)))
           = filter (\<lambda>k. get_count xs k = n \<and> m \<le> n) (map fst xs)"
proof -
  have "filter (\<lambda>item. snd item = n) (most_common (filter_min_count m xs))
          = filter (\<lambda>item. snd item = n) (filter_min_count m xs)"
    using sort_key_stable [of "\<lambda>item. - snd item" "- n" "filter_min_count m xs"]
    by (simp add: most_common_def)
  also have "\<dots> = filter (\<lambda>item. snd item = n \<and> m \<le> n) xs"
    unfolding filter_min_count_def filter_filter by (intro filter_cong) auto
  finally show ?thesis
    using alist_filter_keys_count [OF assms, of "\<lambda>v. v = n \<and> m \<le> n"] by simp
qed

lemma most_common_ties:
  assumes "distinct (map fst xs)"
  shows "map fst (filter (\<lambda>item. snd item = n) (most_common xs))
           = filter (\<lambda>k. get_count xs k = n) (map fst xs)"
proof -
  have "filter (\<lambda>item. snd item = n) (most_common xs) = filter (\<lambda>item. snd item = n) xs"
    using sort_key_stable [of "\<lambda>item. - snd item" "- n" xs]
    by (simp add: most_common_def)
  then show ?thesis
    using alist_filter_keys_count [OF assms, of "\<lambda>v. v = n"] by simp
qed

lemma by_len_ties_min:
  assumes "distinct (map fst d)"
  shows "map fst (filter (\<lambda>item. fcard (snd item) = c) (sorted_by_len_desc (filter_min_ips m d)))
           = filter (\<lambda>k. fcard (get_set d k) = c \<and> m \<le> int c) (map fst d)"
proof -
  have "filter (\<lambda>item. fcard (snd item) = c) (sorted_by_len_desc (filter_min_ips m d))
          = filter (\<lambda>item. fcard (snd item) = c) (filter_min_ips m d)"
    using sort_key_stable [of "\<lambda>item. - int (fcard (snd item))" "- int c" "filter_min_ips m d"]
    by (simp add: sorted_by_len_desc_def)
  also have "\<dots> = filter (\<lambda>item. fcard (snd item) = c \<and> m \<le> int c) d"
    unfolding filter_min_ips_def filter_filter by (intro filter_cong) auto
  finally show ?thesis
    using alist_filter_keys_set [OF assms, of "\<lambda>s. fcard s = c \<and> m \<le> int c"] by simp
qed

lemma by_len_ties:
  assumes "distinct (map fst d)"
  shows "map fst (filter (\<lambda>item. fcard (snd item) = c) (sorted_by_len_desc d))
           = filter (\<lambda>k. fcard (get_set d k) = c) (map fst d)"
proof -
  have "filter (\<lambda>item. fcard (snd item) = c) (sorted_by_len_desc d)
          = filter (\<lambda>item. fcard (snd item) = c) d"
    using sort_key_stable [of "\<lambda>item. - int (fcard (snd item))" "- int c" d]
    by (simp add: sorted_by_len_desc_def)
  then show ?thesis
    using alist_filter_keys_set [OF assms, of "\<lambda>s. fcard s = c"] by simp
qed

section \<open>The connections loop, and permutations of the input\<close>

lemma map_of_count_fold:
  "map_of (fold (count_step key_of) lines counter) k
     = (if filter (\<lambda>l. key_of l = Some k) lines = [] then map_of counter k
        else Some (get_count counter k + int (length (filter (\<lambda>l. key_of l = Some k) lines))))"
proof (induction lines arbitrary: counter)
  case Nil
  then show ?case by simp
next
  case (Cons line rest)
  show ?case
  proof (cases "key_of line")
    case None
    then show ?thesis
      using Cons.IH [of counter] by (simp add: count_step_def)
  next
    case (Some k')
    then show ?thesis
      using Cons.IH [of "incr k' counter"]
      by (auto simp: count_step_def map_of_incr get_count_incr get_count_def split: option.splits)
  qed
qed

lemma count_fold_perm:
  assumes "mset lines = mset lines'"
  shows "map_of (fold (count_step key_of) lines counter) = map_of (fold (count_step key_of) lines' counter)"
proof
  fix k
  have "mset (filter (\<lambda>l. key_of l = Some k) lines) = mset (filter (\<lambda>l. key_of l = Some k) lines')"
    using assms by simp
  then have "length (filter (\<lambda>l. key_of l = Some k) lines) = length (filter (\<lambda>l. key_of l = Some k) lines')"
    by (rule mset_eq_length)
  then show "map_of (fold (count_step key_of) lines counter) k
               = map_of (fold (count_step key_of) lines' counter) k"
    unfolding map_of_count_fold by (metis length_0_conv)
qed

lemma max_default_set: "max_default xs d = (if xs = [] then d else Max (set xs))"
  by (simp add: max_default_Max)

lemma print_counter_by_key_cong:
  assumes "distinct (map fst xs)" "distinct (map fst ys)" "set xs = set ys"
  shows "print_counter xs head1 head2 True = print_counter ys head1 head2 True"
proof -
  have dx: "distinct xs" and dy: "distinct ys"
    using assms(1,2) by (simp_all add: distinct_map)
  then have m: "mset xs = mset ys"
    using assms(3) by (simp add: set_eq_iff_mset_eq_distinct)
  have "sort_key (\<lambda>x. x) xs = sort ys"
    by (rule sort_key_inj_key_eq) (simp_all add: m)
  moreover have "xs = [] \<longleftrightarrow> ys = []"
    using assms(3) by (metis set_empty)
  then have "max_default (map (\<lambda>item. length (fst item)) xs) (length head1)
      = max_default (map (\<lambda>item. length (fst item)) ys) (length head1)"
    using assms(3) by (simp add: max_default_set)
  ultimately show ?thesis
    by (simp add: print_counter_def)
qed

lemma connections_loop_char:
  "connections_loop lines per_min
     = (if \<exists>l \<in> set lines. conn_minute l = Some (Inl ValueError) then Inl ValueError
        else Inr (fold (count_step minute_key) lines per_min))"
proof (induction lines arbitrary: per_min)
  case Nil
  then show ?case by simp
next
  case (Cons line rest)
  show ?case
  proof (cases "conn_minute line")
    case None
    then have "search NEW_CONN_PATTERN line = None"
      by (simp add: conn_minute_def split: option.splits)
    moreover have "minute_key line = None"
      using None by (simp add: minute_key_def)
    ultimately show ?thesis
      using None Cons.IH [of per_min] by (simp add: count_step_None)
  next
    case (Some r)
    then obtain m where m: "search NEW_CONN_PATTERN line = Some m"
      by (auto simp: conn_minute_def split: option.splits)
    show ?thesis
    proof (cases r)
      case (Inl e)
      then have "strptime (take 19 (group m ''ts'')) = Inl e"
        using Some m by (simp add: conn_minute_def split: sum.splits)
      moreover have "e = ValueError"
        by (cases e) simp
      ultimately show ?thesis
        using Some Inl m by simp
    next
      case (Inr b)
      then obtain dt where "strptime (take 19 (group m ''ts'')) = Inr dt" "strftime dt = b"
        using Some m by (auto simp: conn_minute_def split: sum.splits)
      moreover have "minute_key line = Some b"
        using Some Inr by (simp add: minute_key_def)
      then have "count_step minute_key line per_min = incr b per_min"
        by (simp add: count_step_def)
      ultimately show ?thesis
        using Some Inr m Cons.IH [of "incr b per_min"] by simp
    qed
  qed
qed

lemma connections_loop_perm:
  assumes "mset lines = mset lines'"
  shows "connections lines = connections lines'"
proof -
  have s: "set lines = set lines'"
    using assms by (rule mset_eq_setD)
  show ?thesis
  proof (cases "\<exists>l \<in> set lines. conn_minute l = Some (Inl ValueError)")
    case True
    then show ?thesis
      using s by (simp add: connections_def connections_loop_char)
  next
    case False
    let ?c = "fold (count_step minute_key) lines []" and ?c' = "fold (count_step minute_key) lines' []"
    have d: "distinct (map fst ?c)" "distinct (map fst ?c')"
      by (simp_all add: distinct_count_fold)
    have "map_of ?c = map_of ?c'"
      using assms by (rule count_fold_perm)
    then have "set ?c = set ?c'"
      using d by (simp add: map_of_inject_set)
    then have "print_counter ?c ''Timestamp'' ''Count'' True = print_counter ?c' ''Timestamp'' ''Count'' True"
      using d by (intro print_counter_by_key_cong)
    then show ?thesis
      using False s by (simp add: connections_def connections_loop_char)
  qed
qed

lemma sorted_fst:
  fixes xs :: "('a::linorder \<times> 'b::linorder) list"
  shows "sorted xs \<Longrightarrow> sorted (map fst xs)"
  unfolding sorted_map by (erule sorted_wrt_mono_rel [rotated]) (auto simp: less_eq_prod_def)

lemma distinct_keys_sort:
  fixes xs :: "('a::linorder \<times> 'b::linorder) list"
  shows "distinct (map fst xs) \<Longrightarrow> distinct (map fst (sort xs))"
  by (simp add: distinct_map)

lemma connections_loop_distinct:
  "connections_loop lines [] = Inr per_min \<Longrightarrow> distinct (map fst per_min)"
  by (auto simp: connections_loop_char distinct_count_fold split: if_splits)

section \<open>Reading and printing a timestamp\<close>

lemma isdigit_val:
  assumes "isdigit c"
  shows "digit_val c < 10 \<and> digit_char (digit_val c) = c"
proof -
  have r: "48 \<le> (of_char c :: nat) \<and> (of_char c :: nat) < 58"
    using assms by (auto simp: isdigit_def)
  then have "48 + ((of_char c :: nat) - 48) = of_char c"
    by simp
  then have "digit_char (digit_val c) = c"
    by (simp add: digit_char_def digit_val_def)
  with r show ?thesis
    by (auto simp: digit_val_def)
qed

lemma pad2_digits:
  assumes "isdigit a" "isdigit b"
  shows "pad2 (nat_of_digits [a, b]) = [a, b]"
  using isdigit_val [OF assms(1)] isdigit_val [OF assms(2)]
  by (simp add: pad2_def nat_of_digits_def)

lemma str_nat_small: "n < 10 \<Longrightarrow> str_nat n = [digit_char n]"
  by (simp add: str_nat.simps)

lemma str_nat_step: "1 \<le> n \<Longrightarrow> d < 10 \<Longrightarrow> str_nat (10 * n + d) = str_nat n @ [digit_char d]"
  by (subst str_nat.simps) simp

lemma str_nat_digits4:
  assumes "isdigit a" "isdigit b" "isdigit c" "isdigit d" "1000 \<le> nat_of_digits [a, b, c, d]"
  shows "str_nat (nat_of_digits [a, b, c, d]) = [a, b, c, d]"
proof -
  note va = isdigit_val [OF assms(1)] and vb = isdigit_val [OF assms(2)]
    and vc = isdigit_val [OF assms(3)] and vd = isdigit_val [OF assms(4)]
  have n: "nat_of_digits [a, b, c, d]
             = 10 * (10 * (10 * digit_val a + digit_val b) + digit_val c) + digit_val d"
    by (simp add: nat_of_digits_def)
  have a1: "1 \<le> digit_val a"
  proof (rule ccontr)
    assume "\<not> 1 \<le> digit_val a"
    then have "digit_val a = 0"
      by simp
    then show False
      using assms(5) vb [THEN conjunct1] vc [THEN conjunct1] vd [THEN conjunct1]
      unfolding n by simp
  qed
  have s1: "str_nat (digit_val a) = [a]"
    using va by (simp add: str_nat_small)
  have "str_nat (10 * digit_val a + digit_val b) = str_nat (digit_val a) @ [digit_char (digit_val b)]"
    using a1 vb by (intro str_nat_step) auto
  then have s2: "str_nat (10 * digit_val a + digit_val b) = [a, b]"
    using s1 vb by simp
  have "str_nat (10 * (10 * digit_val a + digit_val b) + digit_val c)
          = str_nat (10 * digit_val a + digit_val b) @ [digit_char (digit_val c)]"
    using a1 vc by (intro str_nat_step) auto
  then have s3: "str_nat (10 * (10 * digit_val a + digit_val b) + digit_val c) = [a, b, c]"
    using s2 vc by simp
  have "str_nat (10 * (10 * (10 * digit_val a + digit_val b) + digit_val c) + digit_val d)
          = str_nat (10 * (10 * digit_val a + digit_val b) + digit_val c) @ [digit_char (digit_val d)]"
    using a1 vd by (intro str_nat_step) auto
  then show ?thesis
    unfolding n using s3 vd by simp
qed

lemma list19:
  assumes "length s = 19"
  shows "s = [s ! 0, s ! 1, s ! 2, s ! 3, s ! 4, s ! 5, s ! 6, s ! 7, s ! 8, s ! 9, s ! 10,
              s ! 11, s ! 12, s ! 13, s ! 14, s ! 15, s ! 16, s ! 17, s ! 18]"
proof -
  have "[0..<19] = [0, 1, 2, 3, 4, 5, 6, 7, 8, 9, 10, 11, 12, 13, 14, 15, 16, 17, 18 :: nat]"
    by code_simp
  then have "map (\<lambda>i. s ! i) [0..<length s]
     = [s ! 0, s ! 1, s ! 2, s ! 3, s ! 4, s ! 5, s ! 6, s ! 7, s ! 8, s ! 9, s ! 10,
              s ! 11, s ! 12, s ! 13, s ! 14, s ! 15, s ! 16, s ! 17, s ! 18]"
    using assms by simp
  then show ?thesis
    by (simp only: map_nth)
qed

lemma strptime_shape: "strptime s = Inr dt \<Longrightarrow> ts_shape s"
  by (simp add: strptime_def split: if_splits)

lemma strptime_fields:
  assumes "strptime s = Inr dt"
  shows "year dt = nat_of_digits (take 4 s) \<and> month dt = nat_of_digits (take 2 (drop 5 s))
    \<and> day dt = nat_of_digits (take 2 (drop 8 s)) \<and> hour dt = nat_of_digits (take 2 (drop 11 s))
    \<and> minute dt = nat_of_digits (take 2 (drop 14 s))"
  using assms by (auto simp: strptime_def Let_def split: if_splits)

lemma strftime_of_strptime:
  assumes "strptime s = Inr dt" "1000 \<le> year dt"
  shows "strftime dt = take 10 s @ '' '' @ take 5 (drop 11 s)"
proof -
  have sh: "ts_shape s"
    using assms(1) by (rule strptime_shape)
  then have len: "length s = 19"
    by (simp add: ts_shape_def)
  obtain c0 c1 c2 c3 c4 c5 c6 c7 c8 c9 c10 c11 c12 c13 c14 c15 c16 c17 c18
    where s: "s = [c0, c1, c2, c3, c4, c5, c6, c7, c8, c9, c10, c11, c12, c13, c14, c15, c16, c17, c18]"
    using list19 [OF len] by (rule that)
  have dg: "isdigit c0" "isdigit c1" "isdigit c2" "isdigit c3" "isdigit c5" "isdigit c6"
    "isdigit c8" "isdigit c9" "isdigit c11" "isdigit c12" "isdigit c14" "isdigit c15"
    using sh unfolding s ts_shape_def by simp_all
  have sep: "c4 = CHR ''-''" "c7 = CHR ''-''" "c13 = CHR '':''"
    using sh unfolding s ts_shape_def by simp_all
  have f: "year dt = nat_of_digits [c0, c1, c2, c3]" "month dt = nat_of_digits [c5, c6]"
    "day dt = nat_of_digits [c8, c9]" "hour dt = nat_of_digits [c11, c12]"
    "minute dt = nat_of_digits [c14, c15]"
    using strptime_fields [OF assms(1)] unfolding s by simp_all
  have y: "str_nat (year dt) = [c0, c1, c2, c3]"
    using assms(2) dg unfolding f by (intro str_nat_digits4) simp_all
  have "strftime dt = [c0, c1, c2, c3] @ ''-'' @ [c5, c6] @ ''-'' @ [c8, c9] @ '' ''
          @ [c11, c12] @ '':'' @ [c14, c15]"
    unfolding strftime_def y unfolding f by (simp add: pad2_digits dg)
  then show ?thesis
    unfolding s using sep by simp
qed

lemma strftime_prefix16:
  assumes "strptime s = Inr dt"
  shows "strftime dt =
     (let p = take 16 s
      in str_nat (nat_of_digits (take 4 p)) @ ''-'' @ pad2 (nat_of_digits (take 2 (drop 5 p)))
         @ ''-'' @ pad2 (nat_of_digits (take 2 (drop 8 p))) @ '' ''
         @ pad2 (nat_of_digits (take 2 (drop 11 p))) @ '':''
         @ pad2 (nat_of_digits (take 2 (drop 14 p))))"
  using strptime_fields [OF assms] by (simp add: strftime_def Let_def drop_take)

lemma strftime_same_minute:
  assumes "strptime s = Inr dt" "strptime s' = Inr dt'" "take 16 s = take 16 s'"
  shows "strftime dt = strftime dt'"
  unfolding strftime_prefix16 [OF assms(1)] strftime_prefix16 [OF assms(2)] assms(3) ..

lemma conn_minute_Inr:
  assumes "search NEW_CONN_PATTERN line = Some m" "strptime (take 19 (group m ''ts'')) = Inr dt"
  shows "conn_minute line = Some (Inr (strftime dt))"
  using assms by (simp add: conn_minute_def)

lemma minute_key_eq: "minute_key l = Some b \<longleftrightarrow> conn_minute l = Some (Inr b)"
  by (auto simp: minute_key_def split: option.splits sum.splits)

section \<open>The claims\<close>

text \<open>
  C1. The threshold filter keeps exactly the entries whose metric is at least the
  minimum: for the failed-logins counter the metric is the count, for the
  fingerprint map it is the number of addresses in the set. An entry whose metric
  equals the minimum stays, and an entry whose metric is one below the minimum
  is not in the result. The entries printed by the two reports are the entries of
  the aggregate with a metric of at least the minimum.
\<close>

theorem C1_threshold_filter_inclusive:
  fixes counter :: "(string \<times> int) list" and fp_map :: "(string \<times> string fset) list"
  shows
   "((ip, cnt) \<in> set (filter_min_count m counter) \<longleftrightarrow> (ip, cnt) \<in> set counter \<and> m \<le> cnt)
    \<and> ((ip, m) \<in> set counter \<longrightarrow> (ip, m) \<in> set (filter_min_count m counter))
    \<and> (ip, m - 1) \<notin> set (filter_min_count m counter)
    \<and> ((fp, ips) \<in> set (filter_min_ips m fp_map) \<longleftrightarrow> (fp, ips) \<in> set fp_map \<and> m \<le> int (fcard ips))
    \<and> ((fp, ips) \<in> set fp_map \<and> int (fcard ips) = m \<longrightarrow> (fp, ips) \<in> set (filter_min_ips m fp_map))
    \<and> (int (fcard ips) = m - 1 \<longrightarrow> (fp, ips) \<notin> set (filter_min_ips m fp_map))
    \<and> set (failed_logins_items lines m)
        = {item \<in> set (count_loop failed_login_ip lines). m \<le> snd item}
    \<and> set (bots_items lines m)
        = {item \<in> set (collect_loop fingerprint_ip lines). m \<le> int (fcard (snd item))}"
  by (auto simp: filter_min_count_def filter_min_ips_def failed_logins_items_def bots_items_def
      most_common_def sorted_by_len_desc_def)

theorem C1_threshold_filter_inclusive_witness:
  "(''1.2.3.4'', 3) \<in> set (filter_min_count 3 [(''1.2.3.4'', 3), (''5.6.7.8'', 2)])
   \<and> (''5.6.7.8'', 2) \<notin> set (filter_min_count 3 [(''1.2.3.4'', 3), (''5.6.7.8'', 2)])
   \<and> (''aa'', {|''1.1.1.1'', ''2.2.2.2''|}) \<in> set (filter_min_ips 2 [(''aa'', {|''1.1.1.1'', ''2.2.2.2''|})])
   \<and> (''aa'', {|''1.1.1.1'', ''2.2.2.2''|}) \<notin> set (filter_min_ips 3 [(''aa'', {|''1.1.1.1'', ''2.2.2.2''|})])"
  using C1_threshold_filter_inclusive [of "''1.2.3.4''" 3 3 "[(''1.2.3.4'', 3), (''5.6.7.8'', 2)]"
      "''aa''" "{|''1.1.1.1'', ''2.2.2.2''|}" "[(''aa'', {|''1.1.1.1'', ''2.2.2.2''|})]"]
    C1_threshold_filter_inclusive [of "''5.6.7.8''" 2 3 "[(''1.2.3.4'', 3), (''5.6.7.8'', 2)]"
      "''aa''" "{|''1.1.1.1'', ''2.2.2.2''|}" "[(''aa'', {|''1.1.1.1'', ''2.2.2.2''|})]"]
    C1_threshold_filter_inclusive [of "''5.6.7.8''" 2 2 "[(''1.2.3.4'', 3), (''5.6.7.8'', 2)]"
      "''aa''" "{|''1.1.1.1'', ''2.2.2.2''|}" "[(''aa'', {|''1.1.1.1'', ''2.2.2.2''|})]"]
  by (simp add: fcard_finsert_if)

text \<open>
  C2. After the loop of the failed-logins task, the counter of an address \<open>X\<close> is
  the number of input lines that match the failed-login pattern with the group
  \<open>ip\<close> equal to \<open>X\<close>. A further line that matches with address \<open>X\<close> adds exactly 1
  to the counter of \<open>X\<close> and leaves every other counter as it is; a further line
  that does not match leaves the whole counter as it is.
\<close>

theorem C2_failed_login_count:
  "get_count (count_loop failed_login_ip lines) X
     = int (length (filter (\<lambda>l. failed_login_ip l = Some X) lines))
   \<and> (failed_login_ip line = Some X \<longrightarrow>
        get_count (count_loop failed_login_ip (lines @ [line])) X
          = get_count (count_loop failed_login_ip lines) X + 1
        \<and> (\<forall>Y. Y \<noteq> X \<longrightarrow> get_count (count_loop failed_login_ip (lines @ [line])) Y
                          = get_count (count_loop failed_login_ip lines) Y))
   \<and> (failed_login_ip line = None \<longrightarrow>
        count_loop failed_login_ip (lines @ [line]) = count_loop failed_login_ip lines)"
  by (simp add: get_count_loop count_loop_snoc count_step_def get_count_incr)

text \<open>
  The example of the specification: three failed logins from 1.2.3.4 and one from
  5.6.7.8, with a minimum count of 2.
\<close>

theorem C2_failed_login_count_witness:
  "failed_login_ip failed_line_a = Some ''1.2.3.4''
   \<and> failed_login_ip other_line = None
   \<and> get_count (count_loop failed_login_ip
        ([failed_line_a, failed_line_b, other_line, failed_line_a] @ [failed_line_a])) ''1.2.3.4''
       = get_count (count_loop failed_login_ip
           [failed_line_a, failed_line_b, other_line, failed_line_a]) ''1.2.3.4'' + 1
   \<and> count_loop failed_login_ip ([failed_line_a, failed_line_b] @ [other_line])
       = count_loop failed_login_ip [failed_line_a, failed_line_b]
   \<and> get_count (count_loop failed_login_ip
        [failed_line_a, failed_line_b, other_line, failed_line_a, failed_line_a]) ''1.2.3.4'' = 3
   \<and> analyze_failed_logins
        [failed_line_a, failed_line_b, other_line, failed_line_a, failed_line_a] 2
       = [''Failed login attempts (min 2)'',
          ''IP         Count'',
          ''----------------'',
          ''1.2.3.4        3'']"
proof -
  have a: "failed_login_ip failed_line_a = Some ''1.2.3.4''"
    by code_simp
  have b: "failed_login_ip other_line = None"
    by code_simp
  have n: "int (length (filter (\<lambda>l. failed_login_ip l = Some ''1.2.3.4'')
             [failed_line_a, failed_line_b, other_line, failed_line_a, failed_line_a])) = 3"
    by code_simp
  have r: "analyze_failed_logins
        [failed_line_a, failed_line_b, other_line, failed_line_a, failed_line_a] 2
       = [''Failed login attempts (min 2)'',
          ''IP         Count'',
          ''----------------'',
          ''1.2.3.4        3'']"
    by code_simp
  show ?thesis
    using a b n r
      C2_failed_login_count [of "[failed_line_a, failed_line_b, other_line, failed_line_a]"
        "''1.2.3.4''" failed_line_a]
      C2_failed_login_count [of "[failed_line_a, failed_line_b]" "''1.2.3.4''" other_line]
      C2_failed_login_count [of
        "[failed_line_a, failed_line_b, other_line, failed_line_a, failed_line_a]" "''1.2.3.4''"]
    by (metis (no_types, lifting))
qed

text \<open>
  C3, as amended. In the reports of the table printer (failed-logins, connections,
  top-commands) the header row has a left-aligned key column whose width is the
  length of the longest key, or the length of the header text when that is longer
  or there is no key, and a right-aligned metric column of width 8. The header
  row of successful-creds has two key columns of the fixed width 15 and a metric
  column of width 9. The header row of identify-bots has a key column of the
  fixed width 47 and a metric column of width 6. A column of width \<open>w\<close> takes
  \<open>w\<close> characters, or the length of its text when that is longer.
\<close>

theorem C3_header_rows:
  "print_counter counter head1 head2 sort_keys ! 0 = spec_header_row (map fst counter) head1 head2 8
   \<and> analyze_failed_logins lines min_count ! 1
       = spec_header_row (map fst (filter_min_count min_count (count_loop failed_login_ip lines)))
           ''IP'' ''Count'' 8
   \<and> (connections_loop lines [] = Inr per_min \<longrightarrow>
        (\<exists>out. connections lines = Inr out
           \<and> out ! 1 = spec_header_row (map fst per_min) ''Timestamp'' ''Count'' 8))
   \<and> top_commands lines ! 1
       = spec_header_row (map fst (count_loop shell_cmd lines)) ''Command'' ''Count'' 8
   \<and> analyze_successful_creds lines ! 1
       = fmt_left 15 ''Username'' @ '' '' @ fmt_left 15 ''Password'' @ '' '' @ fmt_right 9 ''IP_Count''
   \<and> identify_bots lines min_ips ! 1 = fmt_left 47 ''Fingerprint'' @ '' '' @ fmt_right 6 ''IPs''
   \<and> length (fmt_left w s) = max w (length s)
   \<and> length (fmt_right w s) = max w (length s)"
  by (simp add: print_counter_header analyze_failed_logins_def connections_def top_commands_def
      analyze_successful_creds_def identify_bots_def Let_def fmt_left_def fmt_right_def max_def)

text \<open>
  A connections report, and a top-commands report whose only key is shorter than
  the header text: the header is printed whole, and the rule and the data row
  follow the width of the key.
\<close>

theorem C3_header_rows_witness:
  "connections_loop [conn_line_a] [] = Inr [(''2023-01-01 10:15'', 1)]
   \<and> (\<exists>out. connections [conn_line_a] = Inr out
          \<and> out ! 1 = spec_header_row (map fst [(''2023-01-01 10:15'', 1::int)]) ''Timestamp'' ''Count'' 8)
   \<and> spec_header_row (map fst [(''2023-01-01 10:15'', 1::int)]) ''Timestamp'' ''Count'' 8
       = ''Timestamp           Count''
   \<and> top_commands [cmd_line_w]
       = [''Top shell commands'', ''Command    Count'', ''----------'', ''w        1'']"
proof -
  have a: "connections_loop [conn_line_a] [] = Inr [(''2023-01-01 10:15'', 1)]"
    by code_simp
  have b: "spec_header_row (map fst [(''2023-01-01 10:15'', 1::int)]) ''Timestamp'' ''Count'' 8
       = ''Timestamp           Count''"
    by code_simp
  have c: "top_commands [cmd_line_w]
       = [''Top shell commands'', ''Command    Count'', ''----------'', ''w        1'']"
    by code_simp
  from a b c C3_header_rows [THEN conjunct2, THEN conjunct2, THEN conjunct1, THEN mp, OF a]
  show ?thesis
    by blast
qed

text \<open>
  C3 as stated fails for the identify-bots report: its key column is 47 wide,
  whatever the keys, and its metric column is 6 wide, which is not between 8
  and 10.
\<close>

theorem C3_header_rows_counterexample:
  "identify_bots [fp_line_a] 1 ! 1 = ''Fingerprint                                        IPs''
   \<and> identify_bots [fp_line_a] 1 ! 1
       \<noteq> spec_header_row [''0123456789abcdef0123456789abcdef''] ''Fingerprint'' ''IPs'' 8
   \<and> identify_bots [fp_line_a] 1 ! 1
       \<noteq> spec_header_row [''0123456789abcdef0123456789abcdef''] ''Fingerprint'' ''IPs'' 9
   \<and> identify_bots [fp_line_a] 1 ! 1
       \<noteq> spec_header_row [''0123456789abcdef0123456789abcdef''] ''Fingerprint'' ''IPs'' 10
   \<and> identify_bots [fp_line_a] 1 ! 3
       = ''0123456789abcdef0123456789abcdef                     1''"
  by code_simp

text \<open>
  C4. In the failed-logins, top-commands, identify-bots and successful-creds
  reports the data rows are the rows of the entries in descending order of the
  metric (the count, or the number of distinct addresses): every row printed
  earlier has a metric at least as large. In particular, in the successful-creds
  report an entry with more addresses than another one is printed before it.
  The entries printed are the entries of the aggregate (past the threshold, where
  the task has one), each one once: the order is the only thing the sort changes.
\<close>

theorem C4_descending_by_metric:
  "(\<exists>w. analyze_failed_logins lines min_count
       = [''Failed login attempts (min '' @ str_int min_count @ '')'',
          fmt_left w ''IP'' @ '' '' @ fmt_right 8 ''Count'',
          replicate (w + 9) CHR ''-'']
         @ map (table_row w) (failed_logins_items lines min_count))
   \<and> sorted_wrt (\<lambda>a b. snd a \<ge> snd b) (failed_logins_items lines min_count)
   \<and> (\<exists>w. top_commands lines
       = [''Top shell commands'',
          fmt_left w ''Command'' @ '' '' @ fmt_right 8 ''Count'',
          replicate (w + 9) CHR ''-'']
         @ map (table_row w) (top_commands_items lines))
   \<and> sorted_wrt (\<lambda>a b. snd a \<ge> snd b) (top_commands_items lines)
   \<and> identify_bots lines min_ips
       = [bots_title min_ips,
          ''Fingerprint                                        IPs'',
          ''-----------------------------------------------------'']
         @ map bots_row (bots_items lines min_ips)
   \<and> sorted_wrt (\<lambda>a b. fcard (snd a) \<ge> fcard (snd b)) (bots_items lines min_ips)
   \<and> analyze_successful_creds lines
       = [''Successful login credentials'',
          ''Username        Password         IP_Count'',
          ''-----------------------------------------'']
         @ map creds_row (creds_items lines)
   \<and> sorted_wrt (\<lambda>a b. fcard (snd a) \<ge> fcard (snd b)) (creds_items lines)
   \<and> (i < length (creds_items lines) \<and> j < length (creds_items lines)
        \<and> fcard (snd (creds_items lines ! i)) > fcard (snd (creds_items lines ! j))
       \<longrightarrow> i < j)
   \<and> mset (failed_logins_items lines min_count)
       = mset (filter_min_count min_count (count_loop failed_login_ip lines))
   \<and> mset (top_commands_items lines) = mset (count_loop shell_cmd lines)
   \<and> mset (bots_items lines min_ips)
       = mset (filter_min_ips min_ips (collect_loop fingerprint_ip lines))
   \<and> mset (creds_items lines) = mset (collect_loop success_cred lines)"
proof -
  have m1: "mset (failed_logins_items lines min_count)
       = mset (filter_min_count min_count (count_loop failed_login_ip lines))"
    by (simp add: failed_logins_items_def most_common_def)
  have m2: "mset (top_commands_items lines) = mset (count_loop shell_cmd lines)"
    by (simp add: top_commands_items_def most_common_def)
  have m3: "mset (bots_items lines min_ips)
       = mset (filter_min_ips min_ips (collect_loop fingerprint_ip lines))"
    by (simp add: bots_items_def sorted_by_len_desc_def)
  have m4: "mset (creds_items lines) = mset (collect_loop success_cred lines)"
    by (simp add: creds_items_def sorted_by_len_desc_def)
  have creds: "sorted_wrt (\<lambda>a b. fcard (snd a) \<ge> fcard (snd b)) (creds_items lines)"
    unfolding creds_items_def by (rule sorted_by_len_desc_sorted)
  have bots: "sorted_wrt (\<lambda>a b. fcard (snd a) \<ge> fcard (snd b)) (bots_items lines min_ips)"
    unfolding bots_items_def by (rule sorted_by_len_desc_sorted)
  have failed: "sorted_wrt (\<lambda>a b. snd a \<ge> snd b) (failed_logins_items lines min_count)"
    unfolding failed_logins_items_def by (rule most_common_sorted)
  have cmds: "sorted_wrt (\<lambda>a b. snd a \<ge> snd b) (top_commands_items lines)"
    unfolding top_commands_items_def by (rule most_common_sorted)
  have idx: "i < length (creds_items lines) \<and> j < length (creds_items lines)
        \<and> fcard (snd (creds_items lines ! i)) > fcard (snd (creds_items lines ! j))
       \<longrightarrow> i < j"
    using sorted_desc_index [OF creds, of i j] by blast
  from creds bots failed cmds idx m1 m2 m3 m4 analyze_failed_logins_rows [of lines min_count]
    top_commands_rows [of lines] analyze_successful_creds_rows [of lines]
    identify_bots_rows [of lines min_ips]
  show ?thesis
    by blast
qed

text \<open>
  The example of the specification: the pair root/admin from three addresses and
  the pair root/1234 from one. And one input for each of the other three reports,
  in which the key with the smaller metric comes first in the input and last in
  the report.
\<close>

theorem C4_descending_by_metric_witness:
  "creds_items [success_line_d, success_line_a, success_line_b, success_line_c, success_line_a]
     = [((''root'', ''admin''), {|''1.2.3.4'', ''5.6.7.8'', ''9.9.9.9''|}),
        ((''root'', ''1234''), {|''9.9.9.9''|})]
   \<and> fcard {|''1.2.3.4'', ''5.6.7.8'', ''9.9.9.9''|} > fcard {|''9.9.9.9''|}
   \<and> (0::nat) < 1
   \<and> analyze_successful_creds
        [success_line_d, success_line_a, success_line_b, success_line_c, success_line_a]
       = [''Successful login credentials'',
          ''Username        Password         IP_Count'',
          ''-----------------------------------------'',
          ''root            admin                   3'',
          ''root            1234                    1'']
   \<and> count_loop failed_login_ip [failed_line_b, failed_line_a, other_line, failed_line_a]
       = [(''5.6.7.8'', 1), (''1.2.3.4'', 2)]
   \<and> analyze_failed_logins [failed_line_b, failed_line_a, other_line, failed_line_a] 1
       = [''Failed login attempts (min 1)'',
          ''IP         Count'',
          ''----------------'',
          ''1.2.3.4        2'',
          ''5.6.7.8        1'']
   \<and> count_loop shell_cmd [cmd_line_w, cmd_line_ls, cmd_line_ls] = [(''w'', 1), (''ls'', 2)]
   \<and> top_commands [cmd_line_w, cmd_line_ls, cmd_line_ls]
       = [''Top shell commands'',
          ''Command    Count'',
          ''-----------'',
          ''ls        2'',
          ''w         1'']
   \<and> collect_loop fingerprint_ip [fp_line_c, fp_line_a, fp_line_b]
       = [(''ffffffffffffffffffffffffffffffff'', {|''1.2.3.4''|}),
          (''0123456789abcdef0123456789abcdef'', {|''1.2.3.4'', ''5.6.7.8''|})]
   \<and> drop 3 (identify_bots [fp_line_c, fp_line_a, fp_line_b] 1)
       = [''0123456789abcdef0123456789abcdef                     2'',
          ''ffffffffffffffffffffffffffffffff                     1'']"
proof -
  let ?L = "[success_line_d, success_line_a, success_line_b, success_line_c, success_line_a]"
  have f1: "count_loop failed_login_ip [failed_line_b, failed_line_a, other_line, failed_line_a]
       = [(''5.6.7.8'', 1), (''1.2.3.4'', 2)]"
    by code_simp
  have f2: "analyze_failed_logins [failed_line_b, failed_line_a, other_line, failed_line_a] 1
       = [''Failed login attempts (min 1)'',
          ''IP         Count'',
          ''----------------'',
          ''1.2.3.4        2'',
          ''5.6.7.8        1'']"
    by code_simp
  have t1: "count_loop shell_cmd [cmd_line_w, cmd_line_ls, cmd_line_ls] = [(''w'', 1), (''ls'', 2)]"
    by code_simp
  have t2: "top_commands [cmd_line_w, cmd_line_ls, cmd_line_ls]
       = [''Top shell commands'',
          ''Command    Count'',
          ''-----------'',
          ''ls        2'',
          ''w         1'']"
    by code_simp
  have b1: "collect_loop fingerprint_ip [fp_line_c, fp_line_a, fp_line_b]
       = [(''ffffffffffffffffffffffffffffffff'', {|''1.2.3.4''|}),
          (''0123456789abcdef0123456789abcdef'', {|''1.2.3.4'', ''5.6.7.8''|})]"
    by code_simp
  have b2: "drop 3 (identify_bots [fp_line_c, fp_line_a, fp_line_b] 1)
       = [''0123456789abcdef0123456789abcdef                     2'',
          ''ffffffffffffffffffffffffffffffff                     1'']"
    by code_simp
  have ci: "creds_items ?L
     = [((''root'', ''admin''), {|''1.2.3.4'', ''5.6.7.8'', ''9.9.9.9''|}),
        ((''root'', ''1234''), {|''9.9.9.9''|})]"
    by code_simp
  have fc: "fcard {|''1.2.3.4'', ''5.6.7.8'', ''9.9.9.9''|} > fcard {|''9.9.9.9''|}"
    by (simp add: fcard_finsert_if)
  have h: "0 < length (creds_items ?L) \<and> 1 < length (creds_items ?L)
        \<and> fcard (snd (creds_items ?L ! 0)) > fcard (snd (creds_items ?L ! 1))"
    unfolding ci using fc by simp
  have out: "analyze_successful_creds ?L
       = [''Successful login credentials'',
          ''Username        Password         IP_Count'',
          ''-----------------------------------------'',
          ''root            admin                   3'',
          ''root            1234                    1'']"
    by code_simp
  have "(0::nat) < 1"
    using h
    by (rule C4_descending_by_metric [THEN conjunct2, THEN conjunct2, THEN conjunct2,
          THEN conjunct2, THEN conjunct2, THEN conjunct2, THEN conjunct2, THEN conjunct2,
          THEN conjunct1, THEN mp])
  with ci fc out f1 f2 t1 t2 b1 b2 show ?thesis
    by blast
qed

text \<open>
  C5. When the connections task ends normally, its data rows are the rows of the
  minutes in strictly ascending order of the minute. The whole result of the
  task (the report, or the exception) is the same for any two inputs that are
  permutations of each other.
\<close>

theorem C5_connections_sorted_and_order_independent:
  "(connections_loop lines [] = Inr per_min \<longrightarrow>
      (\<exists>w. connections lines
             = Inr ([''Connections per minute'',
                     fmt_left w ''Timestamp'' @ '' '' @ fmt_right 8 ''Count'',
                     replicate (w + 9) CHR ''-'']
                    @ map (table_row w) (sort per_min)))
      \<and> sorted_wrt (<) (map fst (sort per_min)))
   \<and> (mset lines = mset lines' \<longrightarrow> connections lines = connections lines')"
proof -
  have "sorted_wrt (<) (map fst (sort per_min))" if "connections_loop lines [] = Inr per_min"
    using connections_loop_distinct [OF that]
    by (simp add: strict_sorted_iff sorted_fst distinct_keys_sort)
  moreover have "\<exists>w. connections lines
             = Inr ([''Connections per minute'',
                     fmt_left w ''Timestamp'' @ '' '' @ fmt_right 8 ''Count'',
                     replicate (w + 9) CHR ''-'']
                    @ map (table_row w) (sort per_min))"
    if "connections_loop lines [] = Inr per_min"
    using that by (simp add: connections_def print_counter_def Let_def)
  ultimately show ?thesis
    using connections_loop_perm [of lines lines'] by blast
qed

theorem C5_connections_sorted_and_order_independent_witness:
  "connections_loop [conn_line_a, conn_line_c, conn_line_b] []
     = Inr [(''2023-01-01 10:15'', 2), (''2023-01-01 10:14'', 1)]
   \<and> sorted_wrt (<) (map fst (sort [(''2023-01-01 10:15'', 2::int), (''2023-01-01 10:14'', 1)]))
   \<and> mset [conn_line_a, conn_line_c, conn_line_b] = mset [conn_line_b, conn_line_a, conn_line_c]
   \<and> connections [conn_line_a, conn_line_c, conn_line_b]
       = connections [conn_line_b, conn_line_a, conn_line_c]
   \<and> connections [conn_line_a, conn_line_c, conn_line_b]
       = Inr [''Connections per minute'',
              ''Timestamp           Count'',
              ''-------------------------'',
              ''2023-01-01 10:14        1'',
              ''2023-01-01 10:15        2'']"
proof -
  have a: "connections_loop [conn_line_a, conn_line_c, conn_line_b] []
     = Inr [(''2023-01-01 10:15'', 2), (''2023-01-01 10:14'', 1)]"
    by code_simp
  have b: "mset [conn_line_a, conn_line_c, conn_line_b] = mset [conn_line_b, conn_line_a, conn_line_c]"
    by (simp add: add_mset_commute)
  have c: "connections [conn_line_a, conn_line_c, conn_line_b]
       = Inr [''Connections per minute'',
              ''Timestamp           Count'',
              ''-------------------------'',
              ''2023-01-01 10:14        1'',
              ''2023-01-01 10:15        2'']"
    by code_simp
  note t = C5_connections_sorted_and_order_independent
  have 1: "sorted_wrt (<) (map fst (sort [(''2023-01-01 10:15'', 2::int), (''2023-01-01 10:14'', 1)]))"
    using t [THEN conjunct1, THEN mp, OF a] by (rule conjunct2)
  have 2: "connections [conn_line_a, conn_line_c, conn_line_b]
       = connections [conn_line_b, conn_line_a, conn_line_c]"
    using b by (rule t [THEN conjunct2, THEN mp])
  from a b c 1 2 show ?thesis
    by blast
qed

text \<open>
  C6, as amended. For a line that matches the new-connection pattern, the first
  19 characters of the captured timestamp (so without the fraction and the zone)
  have the shape \<^verbatim>\<open>dddd-dd-ddTdd:dd:dd\<close>. When they are a date and time that
  \<^verbatim>\<open>strptime\<close> accepts, the minute of the line is
  a function of the first 16 characters of the timestamp: two such lines whose
  timestamps agree there have the same minute. For a year from 1000 on the minute
  is printed as \<^verbatim>\<open>YYYY-MM-DD HH:MM\<close>: the first ten characters of the timestamp,
  a space, and the hour and the minute. When no matching line has a timestamp
  that \<^verbatim>\<open>strptime\<close> rejects, the loop ends normally and the counter of each
  minute is the number of matching lines with that minute.
\<close>

theorem C6_minute_bucket:
  "(search NEW_CONN_PATTERN line = Some m \<and> strptime (take 19 (group m ''ts'')) = Inr dt
      \<and> 1000 \<le> year dt \<longrightarrow>
        conn_minute line
          = Some (Inr (take 10 (group m ''ts'') @ '' '' @ take 5 (drop 11 (group m ''ts'')))))
   \<and> (search NEW_CONN_PATTERN line = Some m \<and> search NEW_CONN_PATTERN line' = Some m'
      \<and> conn_minute line = Some (Inr b) \<and> conn_minute line' = Some (Inr b')
      \<and> take 16 (group m ''ts'') = take 16 (group m' ''ts'') \<longrightarrow> b = b')
   \<and> ((\<forall>l \<in> set lines. conn_minute l \<noteq> Some (Inl ValueError)) \<longrightarrow>
        (\<exists>per_min. connections_loop lines [] = Inr per_min
           \<and> (\<forall>k. get_count per_min k
                   = int (length (filter (\<lambda>l. conn_minute l = Some (Inr k)) lines)))))
   \<and> (search NEW_CONN_PATTERN line = Some m \<longrightarrow> ts_shape (take 19 (group m ''ts'')))"
proof -
  have 1: "conn_minute line
          = Some (Inr (take 10 (group m ''ts'') @ '' '' @ take 5 (drop 11 (group m ''ts''))))"
    if "search NEW_CONN_PATTERN line = Some m" "strptime (take 19 (group m ''ts'')) = Inr dt"
      "1000 \<le> year dt"
    using conn_minute_Inr [OF that(1,2)] strftime_of_strptime [OF that(2,3)]
    by (simp add: drop_take)
  have 2: "b = b'"
    if m: "search NEW_CONN_PATTERN line = Some m" "search NEW_CONN_PATTERN line' = Some m'"
      and b: "conn_minute line = Some (Inr b)" "conn_minute line' = Some (Inr b')"
      and t: "take 16 (group m ''ts'') = take 16 (group m' ''ts'')"
  proof -
    obtain dt where dt: "strptime (take 19 (group m ''ts'')) = Inr dt" "strftime dt = b"
      using m(1) b(1) by (auto simp: conn_minute_def split: sum.splits)
    obtain dt' where dt': "strptime (take 19 (group m' ''ts'')) = Inr dt'" "strftime dt' = b'"
      using m(2) b(2) by (auto simp: conn_minute_def split: sum.splits)
    have "take 16 (take 19 (group m ''ts'')) = take 16 (take 19 (group m' ''ts''))"
      using t by simp
    from strftime_same_minute [OF dt(1) dt'(1) this] dt(2) dt'(2) show ?thesis
      by simp
  qed
  have 3: "\<exists>per_min. connections_loop lines [] = Inr per_min
           \<and> (\<forall>k. get_count per_min k
                   = int (length (filter (\<lambda>l. conn_minute l = Some (Inr k)) lines)))"
    if "\<forall>l \<in> set lines. conn_minute l \<noteq> Some (Inl ValueError)"
    using that
    by (simp add: connections_loop_char count_loop_def [symmetric] get_count_loop minute_key_eq)
  from 1 2 3 new_conn_ts_shape [of line m] show ?thesis
    by blast
qed

text \<open>
  The example of the specification: two connections in the minute 10:15, one of
  them with a fraction of a second.
\<close>

theorem C6_minute_bucket_witness:
  "search NEW_CONN_PATTERN conn_line_b
     = Some [(''ip'', ''5.6.7.8''), (''ts'', ''2023-01-01T10:15:47.250'')]
   \<and> strptime (take 19 ''2023-01-01T10:15:47.250'')
       = Inr \<lparr>year = 2023, month = 1, day = 1, hour = 10, minute = 15, second = 47\<rparr>
   \<and> conn_minute conn_line_b = Some (Inr ''2023-01-01 10:15'')
   \<and> conn_minute conn_line_a = Some (Inr ''2023-01-01 10:15'')
   \<and> (\<exists>per_min. connections_loop [conn_line_a, conn_line_b] [] = Inr per_min
          \<and> get_count per_min ''2023-01-01 10:15'' = 2)
   \<and> connections [conn_line_a, conn_line_b]
       = Inr [''Connections per minute'',
              ''Timestamp           Count'',
              ''-------------------------'',
              ''2023-01-01 10:15        2'']"
proof -
  let ?mb = "[(''ip'', ''5.6.7.8''), (''ts'', ''2023-01-01T10:15:47.250'')]"
  let ?ma = "[(''ip'', ''1.2.3.4''), (''ts'', ''2023-01-01T10:15:02'')]"
  let ?dt = "\<lparr>year = 2023, month = 1, day = 1, hour = 10, minute = 15, second = 47\<rparr>"
  have sb: "search NEW_CONN_PATTERN conn_line_b = Some ?mb"
    by code_simp
  have sa: "search NEW_CONN_PATTERN conn_line_a = Some ?ma"
    by code_simp
  have gb: "group ?mb ''ts'' = ''2023-01-01T10:15:47.250''"
    by (simp add: group_def)
  have ga: "group ?ma ''ts'' = ''2023-01-01T10:15:02''"
    by (simp add: group_def)
  have p: "strptime (take 19 ''2023-01-01T10:15:47.250'') = Inr ?dt"
    by code_simp
  have y: "1000 \<le> year ?dt"
    by simp
  have ca: "conn_minute conn_line_a = Some (Inr ''2023-01-01 10:15'')"
    by code_simp
  have ok: "\<forall>l \<in> set [conn_line_a, conn_line_b]. conn_minute l \<noteq> Some (Inl ValueError)"
    by code_simp
  have n: "int (length (filter (\<lambda>l. conn_minute l = Some (Inr ''2023-01-01 10:15''))
             [conn_line_a, conn_line_b])) = 2"
    by code_simp
  have out: "connections [conn_line_a, conn_line_b]
       = Inr [''Connections per minute'',
              ''Timestamp           Count'',
              ''-------------------------'',
              ''2023-01-01 10:15        2'']"
    by code_simp
  note t = C6_minute_bucket
  have p': "strptime (take 19 (group ?mb ''ts'')) = Inr ?dt"
    using p by (simp only: gb)
  have "conn_minute conn_line_b
          = Some (Inr (take 10 (group ?mb ''ts'') @ '' '' @ take 5 (drop 11 (group ?mb ''ts''))))"
    by (rule t [THEN conjunct1, THEN mp, OF conjI [OF sb conjI [OF p' y]]])
  then have cb: "conn_minute conn_line_b = Some (Inr ''2023-01-01 10:15'')"
    by (simp only: gb) simp
  have t16: "take 16 (group ?ma ''ts'') = take 16 (group ?mb ''ts'')"
    by (simp only: ga gb) simp
  have same: "''2023-01-01 10:15'' = ''2023-01-01 10:15''"
    by (rule t [THEN conjunct2, THEN conjunct1, THEN mp,
          OF conjI [OF sa conjI [OF sb conjI [OF ca conjI [OF cb t16]]]]])
  have "\<exists>per_min. connections_loop [conn_line_a, conn_line_b] [] = Inr per_min
           \<and> (\<forall>k. get_count per_min k
                   = int (length (filter (\<lambda>l. conn_minute l = Some (Inr k))
                       [conn_line_a, conn_line_b])))"
    using ok by (rule t [THEN conjunct2, THEN conjunct2, THEN conjunct1, THEN mp])
  then have cnt: "\<exists>per_min. connections_loop [conn_line_a, conn_line_b] [] = Inr per_min
          \<and> get_count per_min ''2023-01-01 10:15'' = 2"
    using n by metis
  from sb p ca cb cnt out show ?thesis
    by blast
qed

text \<open>
  C6 as stated fails for a line that matches the pattern with a timestamp that is
  not a date of the calendar: the 30th of February ends the run with
  \<^verbatim>\<open>ValueError\<close>, and no minute is counted. And the minute of a year below 1000
  is not printed with four digits for the year.
\<close>

theorem C6_minute_bucket_counterexample:
  "search NEW_CONN_PATTERN conn_line_bad_day
     = Some [(''ip'', ''1.2.3.4''), (''ts'', ''2023-02-30T10:15:02'')]
   \<and> connections [conn_line_bad_day] = Inl ValueError
   \<and> connections [conn_line_year_999]
       = Inr [''Connections per minute'',
              ''Timestamp          Count'',
              ''------------------------'',
              ''999-01-02 03:04        1'']"
  by code_simp

text \<open>
  C7. Adding an address to a key whose set already has it leaves the dictionary
  as it is. So a line whose (fingerprint, address) pair, or
  ((username, password), address) pair, occurred on an earlier line changes
  nothing, and the number reported for a key is the number of distinct
  addresses seen with it.
\<close>

theorem C7_duplicate_pairs_count_once:
  "(ip |\<in>| get_set d k \<longrightarrow> add_ip k ip d = d)
   \<and> (fingerprint_ip line = Some (fp, ip) \<longrightarrow>
        collect_loop fingerprint_ip (pre @ [line] @ mid @ [line] @ post)
          = collect_loop fingerprint_ip (pre @ [line] @ mid @ post))
   \<and> (success_cred line = Some ((user, pw), ip) \<longrightarrow>
        collect_loop success_cred (pre @ [line] @ mid @ [line] @ post)
          = collect_loop success_cred (pre @ [line] @ mid @ post))
   \<and> ((fp, ips) \<in> set (collect_loop fingerprint_ip lines) \<longrightarrow>
        fcard ips = card {ip. \<exists>l \<in> set lines. fingerprint_ip l = Some (fp, ip)})
   \<and> (((user, pw), ips') \<in> set (collect_loop success_cred lines) \<longrightarrow>
        fcard ips' = card {ip. \<exists>l \<in> set lines. success_cred l = Some ((user, pw), ip)})"
  using add_ip_idem [of ip d k]
    collect_loop_duplicate [of fingerprint_ip line fp ip pre mid post]
    collect_loop_duplicate [of success_cred line "(user, pw)" ip pre mid post]
    collect_loop_entry [of fp ips fingerprint_ip lines]
    collect_loop_entry [of "(user, pw)" ips' success_cred lines]
  by (simp add: fcard.rep_eq)

theorem C7_duplicate_pairs_count_once_witness:
  "add_ip ''k'' ''1.2.3.4'' [(''k'', {|''1.2.3.4''|})] = [(''k'', {|''1.2.3.4''|})]
   \<and> fingerprint_ip fp_line_a = Some (''0123456789abcdef0123456789abcdef'', ''1.2.3.4'')
   \<and> collect_loop fingerprint_ip ([] @ [fp_line_a] @ [fp_line_b] @ [fp_line_a] @ [])
        = collect_loop fingerprint_ip ([] @ [fp_line_a] @ [fp_line_b] @ [])
   \<and> success_cred success_line_a = Some ((''root'', ''admin''), ''1.2.3.4'')
   \<and> collect_loop success_cred ([] @ [success_line_a] @ [] @ [success_line_a] @ [])
        = collect_loop success_cred ([] @ [success_line_a] @ [] @ [])
   \<and> collect_loop fingerprint_ip [fp_line_a, fp_line_b, fp_line_a]
        = [(''0123456789abcdef0123456789abcdef'', {|''1.2.3.4'', ''5.6.7.8''|})]
   \<and> fcard {|''1.2.3.4'', ''5.6.7.8''|}
        = card {ip. \<exists>l \<in> set [fp_line_a, fp_line_b, fp_line_a].
                  fingerprint_ip l = Some (''0123456789abcdef0123456789abcdef'', ip)}
   \<and> collect_loop success_cred [success_line_a, success_line_a]
        = [((''root'', ''admin''), {|''1.2.3.4''|})]
   \<and> fcard {|''1.2.3.4''|}
        = card {ip. \<exists>l \<in> set [success_line_a, success_line_a].
                  success_cred l = Some ((''root'', ''admin''), ip)}"
proof -
  have a: "''1.2.3.4'' |\<in>| get_set [(''k'', {|''1.2.3.4''|})] ''k''"
    by (simp add: get_set_def)
  have b: "fingerprint_ip fp_line_a = Some (''0123456789abcdef0123456789abcdef'', ''1.2.3.4'')"
    by code_simp
  have c: "success_cred success_line_a = Some ((''root'', ''admin''), ''1.2.3.4'')"
    by code_simp
  have d: "collect_loop fingerprint_ip [fp_line_a, fp_line_b, fp_line_a]
        = [(''0123456789abcdef0123456789abcdef'', {|''1.2.3.4'', ''5.6.7.8''|})]"
    by code_simp
  have e: "collect_loop success_cred [success_line_a, success_line_a]
        = [((''root'', ''admin''), {|''1.2.3.4''|})]"
    by code_simp
  have d': "(''0123456789abcdef0123456789abcdef'', {|''1.2.3.4'', ''5.6.7.8''|})
          \<in> set (collect_loop fingerprint_ip [fp_line_a, fp_line_b, fp_line_a])"
    unfolding d by simp
  have e': "((''root'', ''admin''), {|''1.2.3.4''|})
          \<in> set (collect_loop success_cred [success_line_a, success_line_a])"
    unfolding e by simp
  note t = C7_duplicate_pairs_count_once
  have 1: "add_ip ''k'' ''1.2.3.4'' [(''k'', {|''1.2.3.4''|})] = [(''k'', {|''1.2.3.4''|})]"
    using a by (rule t [THEN conjunct1, rule_format])
  have 2: "collect_loop fingerprint_ip ([] @ [fp_line_a] @ [fp_line_b] @ [fp_line_a] @ [])
        = collect_loop fingerprint_ip ([] @ [fp_line_a] @ [fp_line_b] @ [])"
    using b by (rule t [THEN conjunct2, THEN conjunct1, rule_format])
  have 3: "collect_loop success_cred ([] @ [success_line_a] @ [] @ [success_line_a] @ [])
        = collect_loop success_cred ([] @ [success_line_a] @ [] @ [])"
    using c by (rule t [THEN conjunct2, THEN conjunct2, THEN conjunct1, rule_format])
  have 4: "fcard {|''1.2.3.4'', ''5.6.7.8''|}
        = card {ip. \<exists>l \<in> set [fp_line_a, fp_line_b, fp_line_a].
                  fingerprint_ip l = Some (''0123456789abcdef0123456789abcdef'', ip)}"
    using d' by (rule t [THEN conjunct2, THEN conjunct2, THEN conjunct2, THEN conjunct1, rule_format])
  have 5: "fcard {|''1.2.3.4''|}
        = card {ip. \<exists>l \<in> set [success_line_a, success_line_a].
                  success_cred l = Some ((''root'', ''admin''), ip)}"
    using e' by (rule t [THEN conjunct2, THEN conjunct2, THEN conjunct2, THEN conjunct2, rule_format])
  from 1 2 3 4 5 b c d e show ?thesis
    by blast
qed

text \<open>
  C8. A line that the pattern of the selected task does not match is skipped: the
  run prints what it prints without that line, whatever lines come before and
  after it, and a run over that line alone ends normally.
\<close>

theorem C8_unmatched_line_skipped:
  "search (task_pattern t) line = None \<Longrightarrow>
     main t (pre @ line # post) min_count min_ips = main t (pre @ post) min_count min_ips
     \<and> (\<exists>out. main t [line] min_count min_ips = Inr out)"
proof (cases t)
  case FailedLogins
  assume "search (task_pattern t) line = None"
  with FailedLogins have "failed_login_ip line = None"
    by (simp add: task_pattern_def failed_login_ip_def)
  with FailedLogins show ?thesis
    by (simp add: analyze_failed_logins_def count_loop_skip)
next
  case Connections
  assume "search (task_pattern t) line = None"
  with Connections have n: "search NEW_CONN_PATTERN line = None"
    by (simp add: task_pattern_def)
  with Connections show ?thesis
    by (simp add: connections_def connections_loop_skip)
next
  case SuccessfulCreds
  assume "search (task_pattern t) line = None"
  with SuccessfulCreds have "success_cred line = None"
    by (simp add: task_pattern_def success_cred_def)
  with SuccessfulCreds show ?thesis
    by (simp add: analyze_successful_creds_def collect_loop_skip)
next
  case IdentifyBots
  assume "search (task_pattern t) line = None"
  with IdentifyBots have "fingerprint_ip line = None"
    by (simp add: task_pattern_def fingerprint_ip_def)
  with IdentifyBots show ?thesis
    by (simp add: identify_bots_def collect_loop_skip)
next
  case TopCommands
  assume "search (task_pattern t) line = None"
  with TopCommands have "shell_cmd line = None"
    by (simp add: task_pattern_def shell_cmd_def)
  with TopCommands show ?thesis
    by (simp add: top_commands_def count_loop_skip)
qed

theorem C8_unmatched_line_skipped_witness:
  "search (task_pattern FailedLogins) other_line = None
   \<and> main FailedLogins ([failed_line_a] @ other_line # [failed_line_b]) 1 3
       = main FailedLogins ([failed_line_a] @ [failed_line_b]) 1 3
   \<and> search (task_pattern Connections) failed_line_a = None
   \<and> main Connections ([] @ failed_line_a # []) 1 3 = main Connections ([] @ []) 1 3"
proof -
  have a: "search (task_pattern FailedLogins) other_line = None"
    by code_simp
  have b: "search (task_pattern Connections) failed_line_a = None"
    by code_simp
  from C8_unmatched_line_skipped [OF a, of "[failed_line_a]" "[failed_line_b]" 1 3]
    C8_unmatched_line_skipped [OF b, of "[]" "[]" 1 3] a b
  show ?thesis
    by blast
qed

text \<open>
  C9. For every task, when no line of the input matches the pattern of the task
  (so also when the input is empty), the run ends normally and the table it
  prints, after the title line of the task, is the header row and the rule of
  dashes, with no data row. The table printer gives the header row and the rule
  alone for every empty counter.
\<close>

theorem C9_no_match_header_only:
  "((\<forall>l \<in> set lines. search FAILED_LOGIN_PATTERN l = None) \<longrightarrow>
      main FailedLogins lines min_count min_ips
        = Inr [''Failed login attempts (min '' @ str_int min_count @ '')'',
               ''IP    Count'',
               ''-----------''])
   \<and> ((\<forall>l \<in> set lines. search NEW_CONN_PATTERN l = None) \<longrightarrow>
      main Connections lines min_count min_ips
        = Inr [''Connections per minute'',
               ''Timestamp    Count'',
               ''------------------''])
   \<and> ((\<forall>l \<in> set lines. search SUCCESS_LOGIN_PATTERN l = None) \<longrightarrow>
      main SuccessfulCreds lines min_count min_ips
        = Inr [''Successful login credentials'',
               ''Username        Password         IP_Count'',
               ''-----------------------------------------''])
   \<and> ((\<forall>l \<in> set lines. search FINGERPRINT_PATTERN l = None) \<longrightarrow>
      main IdentifyBots lines min_count min_ips
        = Inr [bots_title min_ips,
               ''Fingerprint                                        IPs'',
               ''-----------------------------------------------------''])
   \<and> ((\<forall>l \<in> set lines. search CMD_PATTERN l = None) \<longrightarrow>
      main TopCommands lines min_count min_ips
        = Inr [''Top shell commands'',
               ''Command    Count'',
               ''----------------''])
   \<and> print_counter [] head1 head2 sort_keys
        = [fmt_left (length head1) head1 @ '' '' @ fmt_right 8 head2,
           replicate (length head1 + 9) CHR ''-'']"
proof -
  have 1: "(\<forall>l \<in> set lines. search FAILED_LOGIN_PATTERN l = None) \<longrightarrow>
      main FailedLogins lines min_count min_ips
        = Inr [''Failed login attempts (min '' @ str_int min_count @ '')'',
               ''IP    Count'', ''-----------'']"
  proof
    assume "\<forall>l \<in> set lines. search FAILED_LOGIN_PATTERN l = None"
    then have "count_loop failed_login_ip lines = []"
      by (intro count_loop_no_match) (simp add: failed_login_ip_def)
    then show "main FailedLogins lines min_count min_ips
        = Inr [''Failed login attempts (min '' @ str_int min_count @ '')'',
               ''IP    Count'', ''-----------'']"
      by (simp add: analyze_failed_logins_def filter_min_count_def empty_failed)
  qed
  have 2: "(\<forall>l \<in> set lines. search NEW_CONN_PATTERN l = None) \<longrightarrow>
      main Connections lines min_count min_ips
        = Inr [''Connections per minute'', ''Timestamp    Count'', ''------------------'']"
    by (simp add: connections_def connections_loop_no_match empty_conn)
  have 3: "(\<forall>l \<in> set lines. search SUCCESS_LOGIN_PATTERN l = None) \<longrightarrow>
      main SuccessfulCreds lines min_count min_ips
        = Inr [''Successful login credentials'',
               ''Username        Password         IP_Count'',
               ''-----------------------------------------'']"
  proof
    assume "\<forall>l \<in> set lines. search SUCCESS_LOGIN_PATTERN l = None"
    then have "collect_loop success_cred lines = []"
      by (intro collect_loop_no_match) (simp add: success_cred_def)
    then show "main SuccessfulCreds lines min_count min_ips
        = Inr [''Successful login credentials'',
               ''Username        Password         IP_Count'',
               ''-----------------------------------------'']"
      unfolding main.simps analyze_successful_creds_def Let_def creds_header rule41
      by (simp add: sorted_by_len_desc_def)
  qed
  have 4: "(\<forall>l \<in> set lines. search FINGERPRINT_PATTERN l = None) \<longrightarrow>
      main IdentifyBots lines min_count min_ips
        = Inr [bots_title min_ips,
               ''Fingerprint                                        IPs'',
               ''-----------------------------------------------------'']"
  proof
    assume "\<forall>l \<in> set lines. search FINGERPRINT_PATTERN l = None"
    then have "collect_loop fingerprint_ip lines = []"
      by (intro collect_loop_no_match) (simp add: fingerprint_ip_def)
    then show "main IdentifyBots lines min_count min_ips
        = Inr [bots_title min_ips,
               ''Fingerprint                                        IPs'',
               ''-----------------------------------------------------'']"
      unfolding main.simps identify_bots_def Let_def bots_header rule53
      by (simp add: sorted_by_len_desc_def filter_min_ips_def)
  qed
  have 5: "(\<forall>l \<in> set lines. search CMD_PATTERN l = None) \<longrightarrow>
      main TopCommands lines min_count min_ips
        = Inr [''Top shell commands'', ''Command    Count'', ''----------------'']"
  proof
    assume "\<forall>l \<in> set lines. search CMD_PATTERN l = None"
    then have "count_loop shell_cmd lines = []"
      by (intro count_loop_no_match) (simp add: shell_cmd_def)
    then show "main TopCommands lines min_count min_ips
        = Inr [''Top shell commands'', ''Command    Count'', ''----------------'']"
      by (simp add: top_commands_def empty_cmd)
  qed
  from 1 2 3 4 5 print_counter_empty show ?thesis
    by blast
qed

theorem C9_no_match_header_only_witness:
  "main FailedLogins [other_line] 1 3
     = Inr [''Failed login attempts (min 1)'', ''IP    Count'', ''-----------'']
   \<and> main Connections [] 1 3
     = Inr [''Connections per minute'', ''Timestamp    Count'', ''------------------'']
   \<and> main SuccessfulCreds [other_line, failed_line_a] 1 3
     = Inr [''Successful login credentials'',
            ''Username        Password         IP_Count'',
            ''-----------------------------------------'']
   \<and> main IdentifyBots [other_line] 1 3
     = Inr [bots_title 3,
            ''Fingerprint                                        IPs'',
            ''-----------------------------------------------------'']
   \<and> main TopCommands [] 1 3
     = Inr [''Top shell commands'', ''Command    Count'', ''----------------'']"
proof -
  have a: "\<forall>l \<in> set [other_line]. search FAILED_LOGIN_PATTERN l = None"
    by code_simp
  have b: "\<forall>l \<in> set []. search NEW_CONN_PATTERN l = None"
    by simp
  have c: "\<forall>l \<in> set [other_line, failed_line_a]. search SUCCESS_LOGIN_PATTERN l = None"
    by code_simp
  have d: "\<forall>l \<in> set [other_line]. search FINGERPRINT_PATTERN l = None"
    by code_simp
  have e: "\<forall>l \<in> set []. search CMD_PATTERN l = None"
    by simp
  have t: "''Failed login attempts (min '' @ str_int 1 @ '')'' = ''Failed login attempts (min 1)''"
    by code_simp
  note th = C9_no_match_header_only
  have 1: "main FailedLogins [other_line] 1 3
     = Inr [''Failed login attempts (min 1)'', ''IP    Count'', ''-----------'']"
    using th [THEN conjunct1, THEN mp, OF a, of 1 3] unfolding t .
  have 2: "main Connections [] 1 3
     = Inr [''Connections per minute'', ''Timestamp    Count'', ''------------------'']"
    using b by (rule th [THEN conjunct2, THEN conjunct1, THEN mp])
  have 3: "main SuccessfulCreds [other_line, failed_line_a] 1 3
     = Inr [''Successful login credentials'',
            ''Username        Password         IP_Count'',
            ''-----------------------------------------'']"
    using c by (rule th [THEN conjunct2, THEN conjunct2, THEN conjunct1, THEN mp])
  have 4: "main IdentifyBots [other_line] 1 3
     = Inr [bots_title 3,
            ''Fingerprint                                        IPs'',
            ''-----------------------------------------------------'']"
    using d by (rule th [THEN conjunct2, THEN conjunct2, THEN conjunct2, THEN conjunct1, THEN mp])
  have 5: "main TopCommands [] 1 3
     = Inr [''Top shell commands'', ''Command    Count'', ''----------------'']"
    using e by (rule th [THEN conjunct2, THEN conjunct2, THEN conjunct2, THEN conjunct2, THEN conjunct1, THEN mp])
  from 1 2 3 4 5 show ?thesis
    by blast
qed

text \<open>
  C10. The output of a run is a function of the task, the sequence of lines and
  the two thresholds, so equal line sequences give equal outputs. In the reports
  with a descending order, the entries that have the same metric are printed in
  the order in which their keys first occur in the input: for every value of the
  metric, the keys of the rows with that value are the keys with that value (and
  past the threshold, where the task has one) in the order of first occurrence.
\<close>

theorem C10_deterministic_first_seen_ties:
  "(lines = lines' \<longrightarrow> main t lines min_count min_ips = main t lines' min_count min_ips)
   \<and> map fst (filter (\<lambda>item. snd item = n) (failed_logins_items lines min_count))
       = filter (\<lambda>ip. get_count (count_loop failed_login_ip lines) ip = n \<and> min_count \<le> n)
           (first_seen (List.map_filter failed_login_ip lines))
   \<and> map fst (filter (\<lambda>item. snd item = n) (top_commands_items lines))
       = filter (\<lambda>cmd. get_count (count_loop shell_cmd lines) cmd = n)
           (first_seen (List.map_filter shell_cmd lines))
   \<and> map fst (filter (\<lambda>item. fcard (snd item) = c) (creds_items lines))
       = filter (\<lambda>cred. fcard (get_set (collect_loop success_cred lines) cred) = c)
           (first_seen (map fst (List.map_filter success_cred lines)))
   \<and> map fst (filter (\<lambda>item. fcard (snd item) = c) (bots_items lines min_ips))
       = filter (\<lambda>fp. fcard (get_set (collect_loop fingerprint_ip lines) fp) = c \<and> min_ips \<le> int c)
           (first_seen (map fst (List.map_filter fingerprint_ip lines)))
   \<and> (\<exists>w. drop 3 (analyze_failed_logins lines min_count)
            = map (table_row w) (failed_logins_items lines min_count))
   \<and> (\<exists>w. drop 3 (top_commands lines) = map (table_row w) (top_commands_items lines))
   \<and> drop 3 (analyze_successful_creds lines) = map creds_row (creds_items lines)
   \<and> drop 3 (identify_bots lines min_ips) = map bots_row (bots_items lines min_ips)"
proof -
  have 1: "map fst (filter (\<lambda>item. snd item = n) (failed_logins_items lines min_count))
       = filter (\<lambda>ip. get_count (count_loop failed_login_ip lines) ip = n \<and> min_count \<le> n)
           (first_seen (List.map_filter failed_login_ip lines))"
    unfolding failed_logins_items_def
    by (simp only: most_common_ties_min [OF distinct_count_loop] keys_count_loop)
  have 2: "map fst (filter (\<lambda>item. snd item = n) (top_commands_items lines))
       = filter (\<lambda>cmd. get_count (count_loop shell_cmd lines) cmd = n)
           (first_seen (List.map_filter shell_cmd lines))"
    unfolding top_commands_items_def
    by (simp only: most_common_ties [OF distinct_count_loop] keys_count_loop)
  have 3: "map fst (filter (\<lambda>item. fcard (snd item) = c) (creds_items lines))
       = filter (\<lambda>cred. fcard (get_set (collect_loop success_cred lines) cred) = c)
           (first_seen (map fst (List.map_filter success_cred lines)))"
    unfolding creds_items_def
    by (simp only: by_len_ties [OF distinct_collect_loop] keys_collect_loop)
  have 4: "map fst (filter (\<lambda>item. fcard (snd item) = c) (bots_items lines min_ips))
       = filter (\<lambda>fp. fcard (get_set (collect_loop fingerprint_ip lines) fp) = c \<and> min_ips \<le> int c)
           (first_seen (map fst (List.map_filter fingerprint_ip lines)))"
    unfolding bots_items_def
    by (simp only: by_len_ties_min [OF distinct_collect_loop] keys_collect_loop)
  have 5: "\<exists>w. drop 3 (analyze_failed_logins lines min_count)
            = map (table_row w) (failed_logins_items lines min_count)"
    using analyze_failed_logins_rows [of lines min_count] by auto
  have 6: "\<exists>w. drop 3 (top_commands lines) = map (table_row w) (top_commands_items lines)"
    using top_commands_rows [of lines] by auto
  have 7: "drop 3 (analyze_successful_creds lines) = map creds_row (creds_items lines)"
    by (simp add: analyze_successful_creds_rows)
  have 8: "drop 3 (identify_bots lines min_ips) = map bots_row (bots_items lines min_ips)"
    by (simp add: identify_bots_rows)
  from 1 2 3 4 5 6 7 8 show ?thesis
    by blast
qed

text \<open>
  Two addresses with two failed logins each: the address seen first is printed
  first.
\<close>

theorem C10_deterministic_first_seen_ties_witness:
  "main FailedLogins [failed_line_b, failed_line_a, other_line, failed_line_a, failed_line_b] 1 3
     = main FailedLogins [failed_line_b, failed_line_a, other_line, failed_line_a, failed_line_b] 1 3
   \<and> first_seen (List.map_filter failed_login_ip
        [failed_line_b, failed_line_a, other_line, failed_line_a, failed_line_b])
       = [''5.6.7.8'', ''1.2.3.4'']
   \<and> analyze_failed_logins
        [failed_line_b, failed_line_a, other_line, failed_line_a, failed_line_b] 1
       = [''Failed login attempts (min 1)'',
          ''IP         Count'',
          ''----------------'',
          ''5.6.7.8        2'',
          ''1.2.3.4        2'']"
proof -
  let ?L = "[failed_line_b, failed_line_a, other_line, failed_line_a, failed_line_b]"
  have a: "?L = ?L" ..
  have b: "first_seen (List.map_filter failed_login_ip ?L) = [''5.6.7.8'', ''1.2.3.4'']"
    by code_simp
  have c: "analyze_failed_logins ?L 1
       = [''Failed login attempts (min 1)'',
          ''IP         Count'',
          ''----------------'',
          ''5.6.7.8        2'',
          ''1.2.3.4        2'']"
    by code_simp
  have "main FailedLogins ?L 1 3 = main FailedLogins ?L 1 3"
    using a by (rule C10_deterministic_first_seen_ties [THEN conjunct1, THEN mp])
  with b c show ?thesis
    by blast
qed

end
